(* ===== verification/Bridge_Prelude.thy ===== *)
theory Bridge_Prelude
  imports
    Main
    "HOL-Library.Word"
    "HOL-Library.Monad_Syntax"
    "HOL-Library.State_Monad"
    "HOL-Library.Sublist"
    "HOL-Library.Multiset"
begin

text \<open>
  Shared vocabulary of the development: bytes and Go strings, Go's 64-bit signed integers,
  the sequential early-exit loop over a slice, stable sorting by a key and the SQL
  \<open>LIMIT\<close>, first-occurrence deduplication, and the simplification collections the component
  theories fill.

  A Go string and a \<open>[]byte\<close> are both a list of bytes; \<^typ>\<open>char\<close> has exactly 256 values, so
  a byte is a \<^typ>\<open>char\<close>. A Go \<open>error\<close> value is \<open>None\<close> for \<open>nil\<close> and \<open>Some message\<close> otherwise.
\<close>

section \<open>Collections\<close>

named_theorems run_simps \<open>equations of monadic operations, applied to a state\<close>
section \<open>Bytes and machine integers\<close>

type_synonym bytes = "char list"
type_synonym goerror = "string option"

definition byte :: "char \<Rightarrow> nat" where
  "byte c = of_char c"

definition nul :: char where
  "nul = char_of (0::nat)"

text \<open>
  A Go \<open>int\<close> or \<open>int64\<close> is an \<^typ>\<open>int\<close> in the range of 64-bit two's complement; an operation
  that can leave the range is followed by \<open>wrap64\<close>, which is what the hardware does.
\<close>

definition wrap64 :: "int \<Rightarrow> int" where
  "wrap64 x = signed_take_bit 63 x"

definition int64 :: "int \<Rightarrow> bool" where
  "int64 x \<longleftrightarrow> - (2 ^ 63) \<le> x \<and> x < 2 ^ 63"

lemma wrap64_id [simp]: "int64 x \<Longrightarrow> wrap64 x = x"
  by (simp add: wrap64_def int64_def signed_take_bit_int_eq_self)

lemma wrap64_0 [simp]: "wrap64 0 = 0"
  by (simp add: wrap64_def)

lemma int64_wrap64 [simp]: "int64 (wrap64 x)"
  unfolding int64_def wrap64_def
  using signed_take_bit_int_greater_eq_minus_exp [of 63 x]
    signed_take_bit_int_less_exp [of 63 x] by simp

section \<open>Lists\<close>

text \<open>Go's \<open>if _, seen := m[k]; !seen { order = append(order, k) }\<close>: the distinct elements in
  the order of their first occurrence.\<close>

fun first_seen :: "'a list \<Rightarrow> 'a list \<Rightarrow> 'a list" where
  "first_seen acc [] = acc"
| "first_seen acc (x # xs) = first_seen (if x \<in> set acc then acc else acc @ [x]) xs"

lemma set_first_seen [simp]: "set (first_seen acc xs) = set acc \<union> set xs"
  by (induction acc xs rule: first_seen.induct) auto

lemma distinct_first_seen [simp]: "distinct acc \<Longrightarrow> distinct (first_seen acc xs)"
  by (induction acc xs rule: first_seen.induct) auto

lemma length_filter_complement:
  "length xs = length (filter P xs) + length (filter (\<lambda>x. \<not> P x) xs)"
  by (induction xs) auto

lemma distinct_map_filter' [simp]: "distinct (map f xs) \<Longrightarrow> distinct (map f (filter P xs))"
  by (rule distinct_map_filter)

text \<open>\<open>g\<close> is a function of \<open>f\<close> on a list: what one more element adds.\<close>

lemma agree_on_Cons:
  "(\<forall>x\<in>set (r # rs). \<forall>y\<in>set (r # rs). f x = f y \<longrightarrow> g x = g y) \<longleftrightarrow>
   (\<forall>x\<in>set rs. f r = f x \<longrightarrow> g r = g x) \<and> (\<forall>x\<in>set rs. \<forall>y\<in>set rs. f x = f y \<longrightarrow> g x = g y)"
  by (simp add: eq_commute [of "f r"] eq_commute [of "g r"]) blast

lemma find_Some_in: "find P xs = Some x \<Longrightarrow> x \<in> set xs \<and> P x"
  by (induction xs) (auto split: if_splits)

text \<open>SQLite's \<open>LIMIT n\<close>: a negative \<open>n\<close> means no limit.\<close>

definition sql_limit :: "int \<Rightarrow> 'a list \<Rightarrow> 'a list" where
  "sql_limit n xs = (if n < 0 then xs else take (nat n) xs)"

lemma set_sql_limit_subset: "set (sql_limit n xs) \<subseteq> set xs"
  by (auto simp: sql_limit_def dest: in_set_takeD)

lemma distinct_sql_limit [simp]: "distinct (map f xs) \<Longrightarrow> distinct (map f (sql_limit n xs))"
  by (simp add: sql_limit_def take_map [symmetric])

lemma length_sql_limit: "0 \<le> n \<Longrightarrow> length (sql_limit n xs) \<le> nat n"
  by (simp add: sql_limit_def)

lemma sql_limit_append_drop: "\<exists>rest. xs = sql_limit n xs @ rest \<and> (rest = [] \<or> 0 \<le> n \<and> length (sql_limit n xs) = nat n)"
proof (cases "n < 0")
  case True
  then show ?thesis by (simp add: sql_limit_def)
next
  case False
  then have "xs = sql_limit n xs @ drop (nat n) xs" by (simp add: sql_limit_def)
  moreover have "drop (nat n) xs = [] \<or> length (sql_limit n xs) = nat n"
    using False by (auto simp: sql_limit_def)
  ultimately show ?thesis using False by (intro exI [of _ "drop (nat n) xs"]) auto
qed

lemma distinct_map_sort_key [simp]: "distinct (map f (sort_key g xs)) = distinct (map f xs)"
proof -
  have "mset (map f (sort_key g xs)) = mset (map f xs)" by (simp only: mset_map mset_sort)
  then show ?thesis by (metis mset_eq_imp_distinct_iff)
qed

section \<open>The state monad and loops with an early return\<close>

text \<open>
  \<open>for _, x := range xs { if err := f(x); err != nil { return err } }\<close>: the effects of the
  iterations run in order and the first failing one ends the loop.
\<close>

fun until_error :: "('a \<Rightarrow> ('s, 'e option) state) \<Rightarrow> 'a list \<Rightarrow> ('s, 'e option) state" where
  "until_error f [] = State_Monad.return None"
| "until_error f (x # xs) = do {
     err \<leftarrow> f x;
     (case err of None \<Rightarrow> until_error f xs | Some e \<Rightarrow> State_Monad.return (Some e))
   }"

text \<open>The state after running \<open>m\<close>, and its result.\<close>

definition result :: "('s, 'a) state \<Rightarrow> 's \<Rightarrow> 'a" where
  "result m s = fst (run_state m s)"

definition after :: "('s, 'a) state \<Rightarrow> 's \<Rightarrow> 's" where
  "after m s = snd (run_state m s)"

lemma result_return [simp]: "result (State_Monad.return x) s = x"
  by (simp add: result_def)

lemma after_return [simp]: "after (State_Monad.return x) s = s"
  by (simp add: after_def)

lemma result_bind [simp]: "result (m \<bind> k) s = result (k (result m s)) (after m s)"
  by (simp add: result_def after_def case_prod_beta)

lemma after_bind [simp]: "after (m \<bind> k) s = after (k (result m s)) (after m s)"
  by (simp add: result_def after_def case_prod_beta)

lemma result_State [simp]: "result (State f) s = fst (f s)"
  by (simp add: result_def)

lemma after_State [simp]: "after (State f) s = snd (f s)"
  by (simp add: after_def)

text \<open>
  \<open>keeps V m\<close>: running \<open>m\<close> changes nothing of the view \<open>V\<close> of the state. It is what the
  frame facts of the components are stated with; it composes along \<open>bind\<close>.
\<close>

definition keeps :: "('s \<Rightarrow> 'v) \<Rightarrow> ('s, 'a) state \<Rightarrow> bool" where
  "keeps V m \<longleftrightarrow> (\<forall>s. V (after m s) = V s)"

lemma keepsD: "keeps V m \<Longrightarrow> V (after m s) = V s"
  by (simp add: keeps_def)

lemma keepsI: "(\<And>s. V (after m s) = V s) \<Longrightarrow> keeps V m"
  by (simp add: keeps_def)

lemma keeps_return [intro!, simp]: "keeps V (State_Monad.return x)"
  by (simp add: keeps_def)

lemma keeps_bind [intro!]: "keeps V m \<Longrightarrow> (\<And>x. keeps V (k x)) \<Longrightarrow> keeps V (m \<bind> k)"
  by (simp add: keeps_def)

lemma keeps_until_error [intro!]: "(\<And>x. keeps V (f x)) \<Longrightarrow> keeps V (until_error f xs)"
  by (induction xs) (auto split: option.splits intro!: keeps_bind)

text \<open>\<open>preserves P m\<close>: \<open>m\<close> preserves the invariant \<open>P\<close> of the state.\<close>

definition preserves :: "('s \<Rightarrow> bool) \<Rightarrow> ('s, 'a) state \<Rightarrow> bool" where
  "preserves P m \<longleftrightarrow> (\<forall>s. P s \<longrightarrow> P (after m s))"

lemma preservesD: "preserves P m \<Longrightarrow> P s \<Longrightarrow> P (after m s)"
  by (simp add: preserves_def)

lemma preservesI: "(\<And>s. P s \<Longrightarrow> P (after m s)) \<Longrightarrow> preserves P m"
  by (simp add: preserves_def)

lemma preserves_return [intro!, simp]: "preserves P (State_Monad.return x)"
  by (simp add: preserves_def)

lemma preserves_bind [intro!]:
  "preserves P m \<Longrightarrow> (\<And>x. preserves P (k x)) \<Longrightarrow> preserves P (m \<bind> k)"
  by (simp add: preserves_def)

lemma preserves_until_error [intro!]:
  "(\<And>x. preserves P (f x)) \<Longrightarrow> preserves P (until_error f xs)"
  by (induction xs) (auto split: option.splits intro!: preserves_bind)

text \<open>
  A loop that returned no error ran every iteration, each without an error, in a state the
  earlier ones left behind. \<open>until_error_all\<close> turns this into a postcondition of the whole loop
  from a postcondition of one iteration that the later ones keep.
\<close>

lemma until_error_all:
  assumes "result (until_error f xs) s = None"
    and est: "\<And>x t. x \<in> set xs \<Longrightarrow> result (f x) t = None \<Longrightarrow> Q x (after (f x) t)"
    and stable: "\<And>x y t. y \<in> set xs \<Longrightarrow> Q x t \<Longrightarrow> Q x (after (f y) t)"
  shows "\<forall>x\<in>set xs. Q x (after (until_error f xs) s)"
proof -
  have keep: "Q x t \<Longrightarrow> set ys \<subseteq> set xs \<Longrightarrow> Q x (after (until_error f ys) t)" for x ys t
    by (induction ys arbitrary: t) (auto split: option.splits simp: stable)
  have "set ys \<subseteq> set xs \<Longrightarrow> result (until_error f ys) t = None \<Longrightarrow>
      \<forall>x\<in>set ys. Q x (after (until_error f ys) t)" for ys t
    by (induction ys arbitrary: t) (auto split: option.splits intro!: keep est)
  with assms(1) show ?thesis by blast
qed

end
