(* ===== verification/Go_Text.thy ===== *)
theory Go_Text
  imports Bridge_Prelude
begin

text \<open>
  The part of Go's \<^verbatim>\<open>strings\<close>, \<^verbatim>\<open>strconv\<close>, \<^verbatim>\<open>unicode/utf8\<close>, \<^verbatim>\<open>encoding/base64\<close> and
  \<^verbatim>\<open>encoding/hex\<close> the program calls, on byte strings. Nothing here is code of the repository;
  the component theories build on it.

  The Unicode simple-case-folding table is data of the Go distribution. It enters as a parameter
  \<open>F\<close>, giving a representative of the folding orbit of each rune from 128 up; the
  folding of ASCII letters is written out.
\<close>

section \<open>Searching, splitting, joining, trimming\<close>

fun IndexByte :: "bytes \<Rightarrow> char \<Rightarrow> int" where
  "IndexByte [] c = -1"
| "IndexByte (x # xs) c =
     (if x = c then 0 else let i = IndexByte xs c in if i < 0 then -1 else i + 1)"

definition LastIndexByte :: "bytes \<Rightarrow> char \<Rightarrow> int" where
  "LastIndexByte s c =
     (let i = IndexByte (rev s) c in if i < 0 then -1 else int (length s) - 1 - i)"

lemma IndexByte_neg_iff [simp]: "IndexByte s c < 0 \<longleftrightarrow> c \<notin> set s"
proof (induction s)
  case (Cons x s)
  then show ?case by (auto simp: Let_def)
qed simp

lemma IndexByte_take: "c \<in> set s \<Longrightarrow> IndexByte s c = int (length (takeWhile (\<lambda>x. x \<noteq> c) s))"
proof (induction s)
  case (Cons x s)
  then show ?case using IndexByte_neg_iff [of s c] by (auto simp: Let_def simp del: IndexByte_neg_iff)
qed simp

lemma IndexByte_append_notin:
  "c \<notin> set a \<Longrightarrow> IndexByte (a @ c # b) c = int (length a)"
proof -
  assume "c \<notin> set a"
  then have "takeWhile (\<lambda>x. x \<noteq> c) (a @ c # b) = a" by (induction a) auto
  then show ?thesis by (simp add: IndexByte_take)
qed

lemma LastIndexByte_neg_iff [simp]: "LastIndexByte s c < 0 \<longleftrightarrow> c \<notin> set s"
proof (cases "c \<in> set s")
  case True
  then have "c \<in> set (rev s)" by simp
  then have "takeWhile (\<lambda>x. x \<noteq> c) (rev s) \<noteq> rev s" by (auto simp: takeWhile_eq_all_conv)
  then have "length (takeWhile (\<lambda>x. x \<noteq> c) (rev s)) < length (rev s)"
    by (metis takeWhile_dropWhile_id append_Nil2 length_append length_greater_0_conv less_add_same_cancel1)
  with True have "IndexByte (rev s) c < int (length s)"
    by (simp add: IndexByte_take)
  moreover from True have "\<not> IndexByte (rev s) c < 0" by simp
  ultimately show ?thesis using True by (simp add: LastIndexByte_def Let_def)
next
  case False
  then show ?thesis by (simp add: LastIndexByte_def Let_def)
qed

lemma LastIndexByte_append_notin:
  assumes "c \<notin> set b"
  shows "LastIndexByte (a @ c # b) c = int (length a)"
proof -
  have "IndexByte (rev (a @ c # b)) c = int (length b)"
    using IndexByte_append_notin [of c "rev b" "rev a"] assms by simp
  then show ?thesis by (simp add: LastIndexByte_def)
qed

fun Split_on :: "char \<Rightarrow> bytes \<Rightarrow> bytes list" where
  "Split_on c [] = [[]]"
| "Split_on c (x # xs) =
     (if x = c then [] # Split_on c xs
      else (case Split_on c xs of [] \<Rightarrow> [[x]] | y # ys \<Rightarrow> (x # y) # ys))"

fun Join :: "bytes list \<Rightarrow> bytes \<Rightarrow> bytes" where
  "Join [] sep = []"
| "Join [x] sep = x"
| "Join (x # y # zs) sep = x @ sep @ Join (y # zs) sep"

lemma Split_on_nonempty [simp]: "Split_on c s \<noteq> []"
  by (induction s) (auto split: list.splits)

lemma Split_on_no_sep: "c \<notin> set a \<Longrightarrow> Split_on c a = [a]"
  by (induction a) auto

lemma Split_on_append_sep: "c \<notin> set a \<Longrightarrow> Split_on c (a @ c # b) = a # Split_on c b"
  by (induction a) auto

lemma Split_on_Join:
  assumes "\<forall>x\<in>set xs. c \<notin> set x" and "xs \<noteq> []" and "c \<notin> set sep"
  shows "Split_on c (Join xs (c # sep)) = hd xs # map (\<lambda>x. sep @ x) (tl xs)"
proof -
  have "\<forall>x\<in>set ys. c \<notin> set x \<Longrightarrow> c \<notin> set x \<Longrightarrow>
      Split_on c (pre @ Join (x # ys) (c # sep)) = (pre @ x) # map (\<lambda>x. sep @ x) ys"
    if "c \<notin> set pre" for x ys pre
    using that assms(3)
  proof (induction ys arbitrary: x pre)
    case Nil
    then show ?case by (simp add: Split_on_no_sep)
  next
    case (Cons y ys)
    have "Split_on c (pre @ Join (x # y # ys) (c # sep))
        = Split_on c ((pre @ x) @ c # (sep @ Join (y # ys) (c # sep)))" by simp
    also have "\<dots> = (pre @ x) # Split_on c (sep @ Join (y # ys) (c # sep))"
      using Cons.prems by (intro Split_on_append_sep) auto
    also have "Split_on c (sep @ Join (y # ys) (c # sep)) = (sep @ y) # map (\<lambda>x. sep @ x) ys"
      using Cons.prems by (intro Cons.IH) auto
    finally show ?case by simp
  qed
  from this [of "[]" "tl xs" "hd xs"] assms show ?thesis
    by (cases xs) auto
qed

text \<open>
  \<^verbatim>\<open>strings.TrimSpace\<close> removes Unicode white space: the six ASCII blanks, U+0085, U+00A0, U+1680,
  U+2000 to U+200A, U+2028, U+2029, U+202F, U+205F and U+3000, here by their UTF-8 encodings.
  No encoding is a suffix of another one, nor a prefix, so the order of the list is irrelevant.
\<close>

definition space_encodings :: "bytes list" where
  "space_encodings = map (map (\<lambda>n. char_of (n::nat)))
     ([[9], [10], [11], [12], [13], [32], [0xC2, 0x85], [0xC2, 0xA0], [0xE1, 0x9A, 0x80],
       [0xE2, 0x80, 0xA8], [0xE2, 0x80, 0xA9], [0xE2, 0x80, 0xAF], [0xE2, 0x81, 0x9F],
       [0xE3, 0x80, 0x80]]
      @ map (\<lambda>k. [0xE2, 0x80, 0x80 + k]) [0 ..< 11])"

function trim_left_by :: "bytes list \<Rightarrow> bytes \<Rightarrow> bytes" where
  "trim_left_by es s =
     (case find (\<lambda>e. e \<noteq> [] \<and> prefix e s) es of
        None \<Rightarrow> s
      | Some e \<Rightarrow> trim_left_by es (drop (length e) s))"
  by pat_completeness auto
termination
proof (relation "measure (\<lambda>(es, s). length s)", goal_cases)
  case (2 es s e)
  then have "e \<noteq> [] \<and> prefix e s" by (auto simp: find_Some_iff)
  then show ?case by (auto simp: prefix_def)
qed simp

declare trim_left_by.simps [simp del]

definition TrimSpace :: "bytes \<Rightarrow> bytes" where
  "TrimSpace s =
     rev (trim_left_by (map rev space_encodings) (rev (trim_left_by space_encodings s)))"

text \<open>A string no end of which is white space.\<close>

definition untrimmable :: "bytes \<Rightarrow> bool" where
  "untrimmable s \<longleftrightarrow> (\<forall>e\<in>set space_encodings. \<not> prefix e s \<and> \<not> suffix e s)"

lemma trim_left_by_id: "\<forall>e\<in>set es. \<not> prefix e s \<Longrightarrow> trim_left_by es s = s"
  by (subst trim_left_by.simps) (auto simp: find_Some_iff find_None_iff split: option.splits)

lemma TrimSpace_id: "untrimmable s \<Longrightarrow> TrimSpace s = s"
  by (auto simp: TrimSpace_def untrimmable_def trim_left_by_id suffix_to_prefix)

lemma space_encodings_space:
  "\<forall>e\<in>set space_encodings. e \<noteq> [] \<and> (hd e = CHR '' '' \<longrightarrow> e = [CHR '' ''])"
  "[CHR '' ''] \<in> set space_encodings"
proof -
  have b: "of_char CHR '' '' = (32::nat)" by simp
  have e: "char_of n = CHR '' '' \<longleftrightarrow> n mod 256 = 32" for n :: nat
    by (subst of_char_eq_iff [where 'a = nat, symmetric]) (simp only: of_char_of b)
  have u: "[0..<11] = [0,1,2,3,4,5,6,7,8,9,10::nat]" by (simp add: upt_rec)
  show "\<forall>e\<in>set space_encodings. e \<noteq> [] \<and> (hd e = CHR '' '' \<longrightarrow> e = [CHR '' ''])"
    unfolding space_encodings_def u by (simp add: e)
  have "char_of (32::nat) = CHR '' ''"
    by (subst of_char_eq_iff [where 'a = nat, symmetric]) simp
  then show "[CHR '' ''] \<in> set space_encodings" unfolding space_encodings_def by simp
qed

lemma TrimSpace_leading_space:
  assumes "untrimmable s"
  shows "TrimSpace (CHR '' '' # s) = s"
proof -
  let ?P = "\<lambda>e. e \<noteq> [] \<and> prefix e (CHR '' '' # s)"
  note only = space_encodings_space(1) and mem = space_encodings_space(2)
  have "find ?P space_encodings = Some [CHR '' '']"
  proof (cases "find ?P space_encodings")
    case None
    with mem show ?thesis by (auto simp: find_None_iff)
  next
    case (Some e)
    then have "e \<in> set space_encodings" "?P e" by (auto simp: find_Some_iff)
    then have "e = [CHR '' '']" using only by (auto simp: prefix_Cons)
    with Some show ?thesis by simp
  qed
  then have "trim_left_by space_encodings (CHR '' '' # s) = trim_left_by space_encodings s"
    by (subst trim_left_by.simps) simp
  with assms show ?thesis using TrimSpace_id [OF assms] by (simp add: TrimSpace_def)
qed

text \<open>\<^verbatim>\<open>strings.TrimRight(s, cutset)\<close> for a cutset of ASCII characters.\<close>

definition TrimRight :: "bytes \<Rightarrow> char list \<Rightarrow> bytes" where
  "TrimRight s cs = rev (dropWhile (\<lambda>c. c \<in> set cs) (rev s))"

definition HasPrefix :: "bytes \<Rightarrow> bytes \<Rightarrow> bool" where
  "HasPrefix s p = prefix p s"

section \<open>UTF-8 decoding and case folding\<close>

definition rune_error :: nat where
  "rune_error = 0xFFFD"

definition cont :: "nat \<Rightarrow> bool" where
  "cont b \<longleftrightarrow> 0x80 \<le> b \<and> b \<le> 0xBF"

text \<open>\<^verbatim>\<open>utf8.DecodeRune\<close>: the rune at the front and how many bytes it takes; an ill-formed
  sequence is the replacement rune and takes one byte.\<close>

definition decode_rune :: "bytes \<Rightarrow> nat \<times> nat" where
  "decode_rune s =
     (case map byte (take 4 s) of
        [] \<Rightarrow> (rune_error, 0)
      | b0 # t \<Rightarrow>
          if b0 < 0x80 then (b0, 1)
          else if 0xC2 \<le> b0 \<and> b0 \<le> 0xDF then
            (case t of
               b1 # _ \<Rightarrow> if cont b1 then ((b0 - 0xC0) * 64 + (b1 - 0x80), 2) else (rune_error, 1)
             | _ \<Rightarrow> (rune_error, 1))
          else if 0xE0 \<le> b0 \<and> b0 \<le> 0xEF then
            (case t of
               b1 # b2 # _ \<Rightarrow>
                 if (if b0 = 0xE0 then 0xA0 else 0x80) \<le> b1
                    \<and> b1 \<le> (if b0 = 0xED then 0x9F else 0xBF) \<and> cont b2
                 then ((b0 - 0xE0) * 4096 + (b1 - 0x80) * 64 + (b2 - 0x80), 3)
                 else (rune_error, 1)
             | _ \<Rightarrow> (rune_error, 1))
          else if 0xF0 \<le> b0 \<and> b0 \<le> 0xF4 then
            (case t of
               b1 # b2 # b3 # _ \<Rightarrow>
                 if (if b0 = 0xF0 then 0x90 else 0x80) \<le> b1
                    \<and> b1 \<le> (if b0 = 0xF4 then 0x8F else 0xBF) \<and> cont b2 \<and> cont b3
                 then ((b0 - 0xF0) * 262144 + (b1 - 0x80) * 4096 + (b2 - 0x80) * 64 + (b3 - 0x80), 4)
                 else (rune_error, 1)
             | _ \<Rightarrow> (rune_error, 1))
          else (rune_error, 1))"

text \<open>The runes of a string as \<^verbatim>\<open>for _, r := range s\<close> yields them, each with its size.\<close>

fun runes :: "bytes \<Rightarrow> nat list" where
  "runes [] = []"
| "runes (c # s) = (let (r, n) = decode_rune (c # s) in r # runes (drop (n - 1) s))"

definition fold_rune :: "(nat \<Rightarrow> nat) \<Rightarrow> nat \<Rightarrow> nat" where
  "fold_rune F r = (if r < 128 then if 65 \<le> r \<and> r \<le> 90 then r + 32 else r else F r)"

definition EqualFold :: "(nat \<Rightarrow> nat) \<Rightarrow> bytes \<Rightarrow> bytes \<Rightarrow> bool" where
  "EqualFold F s t \<longleftrightarrow> map (fold_rune F) (runes s) = map (fold_rune F) (runes t)"

text \<open>What a caller of a folding comparison may rely on.\<close>

locale folding_equality =
  fixes eqf :: "bytes \<Rightarrow> bytes \<Rightarrow> bool"
  assumes eqf_refl: "eqf s s"
    and eqf_sym: "eqf s t \<Longrightarrow> eqf t s"
    and eqf_trans: "eqf s t \<Longrightarrow> eqf t u \<Longrightarrow> eqf s u"
begin

lemma eqf_cong: "eqf s s' \<Longrightarrow> eqf p s = eqf p s'"
  by (blast intro: eqf_sym eqf_trans)

end

interpretation ef: folding_equality "EqualFold F" for F
  by unfold_locales (auto simp: EqualFold_def)

text \<open>ASCII strings: one rune per byte, and folding is lower-casing.\<close>

definition ascii :: "bytes \<Rightarrow> bool" where
  "ascii s \<longleftrightarrow> (\<forall>c\<in>set s. byte c < 128)"

definition lower_byte :: "nat \<Rightarrow> nat" where
  "lower_byte b = (if 65 \<le> b \<and> b \<le> 90 then b + 32 else b)"

lemma runes_ascii: "ascii s \<Longrightarrow> runes s = map byte s"
  by (induction s) (auto simp: ascii_def decode_rune_def)

lemma EqualFold_ascii:
  assumes "ascii s" "ascii t"
  shows "EqualFold F s t \<longleftrightarrow> map (lower_byte \<circ> byte) s = map (lower_byte \<circ> byte) t"
proof -
  have f: "map (fold_rune F \<circ> byte) u = map (lower_byte \<circ> byte) u" if "ascii u" for u
    using that by (auto simp: ascii_def fold_rune_def lower_byte_def)
  from assms show ?thesis by (simp add: EqualFold_def runes_ascii f [OF assms(1)] f [OF assms(2)])
qed

text \<open>An ASCII byte ends whatever is before it, so folding compares the two sides of it separately.\<close>

lemma decode_rune_separated:
  assumes "byte d < 128"
  shows "decode_rune (c # s @ d # t) = decode_rune (c # s)"
    and "snd (decode_rune (c # s)) - 1 \<le> length s"
proof -
  have d: "\<not> cont (byte d)" "\<not> 0x80 \<le> byte d" "\<not> 0x90 \<le> byte d" "\<not> 0xA0 \<le> byte d"
    using assms by (auto simp: cont_def)
  consider "s = []" | x where "s = [x]" | x y where "s = [x, y]" | x y z u where "s = x # y # z # u"
    by (metis list.exhaust)
  then show "decode_rune (c # s @ d # t) = decode_rune (c # s)"
  proof cases
    case 1
    then show ?thesis by (cases t; cases "tl t") (simp_all add: decode_rune_def d)
  next
    case 2
    then show ?thesis by (cases t) (simp_all add: decode_rune_def d)
  next
    case 3
    then show ?thesis by (simp add: decode_rune_def d)
  qed (simp add: decode_rune_def)
  show "snd (decode_rune (c # s)) - 1 \<le> length s"
    by (cases s; cases "tl s"; cases "tl (tl s)") (simp_all add: decode_rune_def)
qed

lemma runes_separated: "byte d < 128 \<Longrightarrow> runes (s @ d # t) = runes s @ runes (d # t)"
proof (induction s rule: runes.induct)
  case (2 c s)
  obtain r n where rn: "decode_rune (c # s) = (r, n)" by fastforce
  then have "n - 1 \<le> length s" using decode_rune_separated(2) [OF 2(2), of c s] by simp
  with 2 rn decode_rune_separated(1) [OF 2(2), of c s t] show ?case by simp
qed simp

lemma EqualFold_separated:
  assumes "EqualFold F s s'" "EqualFold F t t'" "byte d < 128"
  shows "EqualFold F (s @ d # t) (s' @ d # t')"
proof -
  have "runes (d # u) = byte d # runes u" for u using assms(3) by (simp add: decode_rune_def)
  with assms show ?thesis by (simp add: EqualFold_def runes_separated del: runes.simps)
qed

section \<open>Decimal integers\<close>

fun dec_value :: "nat \<Rightarrow> bytes \<Rightarrow> nat option" where
  "dec_value acc [] = Some acc"
| "dec_value acc (c # cs) =
     (let b = byte c in
      if 48 \<le> b \<and> b \<le> 57 then dec_value (acc * 10 + (b - 48)) cs else None)"

text \<open>\<^verbatim>\<open>strconv.ParseInt(s, 10, 64)\<close> and \<^verbatim>\<open>strconv.Atoi\<close> on a 64-bit platform: \<open>None\<close> on a
  syntax or range error.\<close>

definition ParseInt :: "bytes \<Rightarrow> int option" where
  "ParseInt s =
     (let neg = (s \<noteq> [] \<and> hd s = CHR ''-'');
          ds = (if s \<noteq> [] \<and> (hd s = CHR ''-'' \<or> hd s = CHR ''+'') then tl s else s)
      in if ds = [] then None
         else (case dec_value 0 ds of
                 None \<Rightarrow> None
               | Some n \<Rightarrow>
                   let v = (if neg then - int n else int n) in if int64 v then Some v else None))"

fun dec_digits :: "nat \<Rightarrow> bytes" where
  "dec_digits n =
     (if n < 10 then [char_of (48 + n)] else dec_digits (n div 10) @ [char_of (48 + n mod 10)])"

declare dec_digits.simps [simp del]

definition Itoa :: "int \<Rightarrow> bytes" where
  "Itoa i = (if i < 0 then CHR ''-'' # dec_digits (nat (- i)) else dec_digits (nat i))"

lemma byte_char_of [simp]: "n < 256 \<Longrightarrow> byte (char_of n) = n"
  by (simp add: byte_def of_char_of)

lemma dec_value_append:
  "dec_value acc (xs @ ys) = (case dec_value acc xs of None \<Rightarrow> None | Some n \<Rightarrow> dec_value n ys)"
  by (induction acc xs rule: dec_value.induct) (auto simp: Let_def)

lemma dec_value_digits: "dec_value 0 (dec_digits n) = Some n"
proof (induction n rule: dec_digits.induct)
  case (1 n)
  show ?case
  proof (cases "n < 10")
    case True
    then show ?thesis by (subst dec_digits.simps) simp
  next
    case False
    have "dec_value 0 (dec_digits n)
        = dec_value 0 (dec_digits (n div 10) @ [char_of (48 + n mod 10)])"
      using False by (subst dec_digits.simps) simp
    also have "\<dots> = Some (n div 10 * 10 + n mod 10)"
      using "1.IH" [OF False] by (simp add: dec_value_append)
    finally show ?thesis by simp
  qed
qed

lemma dec_digits_head:
  "dec_digits n \<noteq> [] \<and> (\<forall>c\<in>set (dec_digits n). 48 \<le> byte c \<and> byte c \<le> 57)"
proof (induction n rule: dec_digits.induct)
  case (1 n)
  then show ?case
    by (subst (1 2) dec_digits.simps) (auto split: if_splits)
qed

lemma ParseInt_Itoa: "int64 i \<Longrightarrow> ParseInt (Itoa i) = Some i"
proof -
  assume i: "int64 i"
  have d: "dec_digits n \<noteq> []" "hd (dec_digits n) \<noteq> CHR ''-''" "hd (dec_digits n) \<noteq> CHR ''+''" for n
  proof -
    show ne: "dec_digits n \<noteq> []" using dec_digits_head [of n] by blast
    have "48 \<le> byte (hd (dec_digits n))" using dec_digits_head [of n] ne by (meson hd_in_set)
    then show "hd (dec_digits n) \<noteq> CHR ''-''" "hd (dec_digits n) \<noteq> CHR ''+''"
      by (auto simp: byte_def)
  qed
  show ?thesis
    using i d [of "nat i"] d [of "nat (- i)"]
    by (auto simp: ParseInt_def Itoa_def dec_value_digits Let_def)
qed

section \<open>Hexadecimal and base64\<close>

definition hex_digit :: "nat \<Rightarrow> char" where
  "hex_digit n = (if n < 10 then char_of (48 + n) else char_of (87 + n))"

definition hex_encode :: "bytes \<Rightarrow> bytes" where
  "hex_encode s = concat (map (\<lambda>c. [hex_digit (byte c div 16), hex_digit (byte c mod 16)]) s)"

definition b64_char :: "nat \<Rightarrow> char" where
  "b64_char n =
     (if n < 26 then char_of (65 + n) else if n < 52 then char_of (71 + n)
      else if n < 62 then char_of (n - 4) else if n = 62 then CHR ''+'' else CHR ''/'')"

text \<open>\<^verbatim>\<open>base64.StdEncoding.EncodeToString\<close>: three bytes to four characters, with padding.\<close>

fun b64_encode :: "bytes \<Rightarrow> bytes" where
  "b64_encode [] = []"
| "b64_encode [a] =
     [b64_char (byte a div 4), b64_char (byte a mod 4 * 16), CHR ''='', CHR ''='']"
| "b64_encode [a, b] =
     [b64_char (byte a div 4), b64_char (byte a mod 4 * 16 + byte b div 16),
      b64_char (byte b mod 16 * 4), CHR ''='']"
| "b64_encode (a # b # c # s) =
     [b64_char (byte a div 4), b64_char (byte a mod 4 * 16 + byte b div 16),
      b64_char (byte b mod 16 * 4 + byte c div 64), b64_char (byte c mod 64)] @ b64_encode s"

text \<open>A decoder for the round trip, as a receiver of the payload has one.\<close>

definition b64_value :: "char \<Rightarrow> nat option" where
  "b64_value c =
     (let b = byte c in
      if 65 \<le> b \<and> b \<le> 90 then Some (b - 65)
      else if 97 \<le> b \<and> b \<le> 122 then Some (b - 71)
      else if 48 \<le> b \<and> b \<le> 57 then Some (b + 4)
      else if b = 43 then Some 62 else if b = 47 then Some 63 else None)"

fun b64_decode :: "bytes \<Rightarrow> bytes option" where
  "b64_decode [] = Some []"
| "b64_decode (w # x # y # z # s) =
     (case (b64_value w, b64_value x, b64_value y, b64_value z) of
        (Some i, Some j, None, None) \<Rightarrow>
          if y = CHR ''='' \<and> z = CHR ''='' \<and> s = [] then Some [char_of (i * 4 + j div 16)] else None
      | (Some i, Some j, Some k, None) \<Rightarrow>
          if z = CHR ''='' \<and> s = []
          then Some [char_of (i * 4 + j div 16), char_of (j mod 16 * 16 + k div 4)] else None
      | (Some i, Some j, Some k, Some l) \<Rightarrow>
          map_option (\<lambda>r. [char_of (i * 4 + j div 16), char_of (j mod 16 * 16 + k div 4),
                           char_of (k mod 4 * 64 + l)] @ r) (b64_decode s)
      | _ \<Rightarrow> None)"
| "b64_decode _ = None"

lemma b64_value_char: "n < 64 \<Longrightarrow> b64_value (b64_char n) = Some n"
  by (auto simp: b64_value_def b64_char_def Let_def byte_def of_char_of)

lemma b64_value_pad [simp]: "b64_value CHR ''='' = None"
  by (simp add: b64_value_def byte_def)

lemma byte_less [simp]: "byte c < 256"
  by (simp add: byte_def)

lemma char_of_byte [simp]: "char_of (byte c) = c"
  by (simp add: byte_def)

lemma b64_bounds:
  "byte a div 4 < 64" "byte a mod 4 * 16 < 64" "byte a mod 4 * 16 + byte b div 16 < 64"
  "byte b mod 16 * 4 < 64" "byte b mod 16 * 4 + byte c div 64 < 64" "byte c mod 64 < 64"
  using byte_less [of a] byte_less [of b] byte_less [of c] by linarith+

lemma byte_div16 [simp]: "byte b div 16 div 16 = 0" "byte b div 16 mod 16 = byte b div 16"
  and byte_div64 [simp]: "byte c div 64 div 4 = 0" "byte c div 64 mod 4 = byte c div 64"
proof -
  have "byte b div 16 < 16" "byte c div 64 < 4"
    using byte_less [of b] byte_less [of c] by linarith+
  then show "byte b div 16 div 16 = 0" "byte b div 16 mod 16 = byte b div 16"
    "byte c div 64 div 4 = 0" "byte c div 64 mod 4 = byte c div 64" by simp_all
qed

lemma b64_first: "byte a div 4 * 4 + (byte a mod 4 * 16 + byte b div 16) div 16 = byte a"
  by (simp add: div_mult_mod_eq)

lemma b64_second:
  "(byte a mod 4 * 16 + byte b div 16) mod 16 * 16 + (byte b mod 16 * 4 + byte c div 64) div 4 = byte b"
  by (simp add: div_mult_mod_eq)

lemma b64_third: "(byte b mod 16 * 4 + byte c div 64) mod 4 * 64 + byte c mod 64 = byte c"
  by (simp add: div_mult_mod_eq)

lemma b64_decode_encode: "b64_decode (b64_encode s) = Some s"
proof (induction s rule: b64_encode.induct)
  case (2 a)
  then show ?case by (simp add: b64_value_char b64_bounds div_mult_mod_eq)
next
  case (3 a b)
  then show ?case by (simp add: b64_value_char b64_bounds b64_first div_mult_mod_eq)
next
  case (4 a b c s)
  then show ?case by (simp add: b64_value_char b64_bounds b64_first b64_second b64_third)
qed simp

end
