(* ===== verification/Go_Net.thy ===== *)
theory Go_Net
  imports Go_Text
begin

unbundle bit_operations_syntax

text \<open>
  The part of Go's \<^verbatim>\<open>net\<close> package the program calls: \<^verbatim>\<open>SplitHostPort\<close>, \<^verbatim>\<open>ParseIP\<close>, \<^verbatim>\<open>ParseCIDR\<close>
  and \<^verbatim>\<open>IPNet.Contains\<close>. An address is the list of its bytes, 4 or 16 of them, each a \<^typ>\<open>nat\<close>
  below 256; \<^verbatim>\<open>ParseIP\<close> yields the 16-byte form, an IPv4 address in its IPv4-in-IPv6 form.
\<close>

section \<open>Textual addresses\<close>

definition octet :: "bytes \<Rightarrow> nat option" where
  "octet f =
     (if f = [] \<or> (1 < length f \<and> hd f = CHR ''0'') then None
      else (case dec_value 0 f of None \<Rightarrow> None | Some n \<Rightarrow> if n \<le> 255 then Some n else None))"

definition parse_ipv4 :: "bytes \<Rightarrow> nat list option" where
  "parse_ipv4 s =
     (case map octet (Split_on CHR ''.'' s) of
        [Some a, Some b, Some c, Some d] \<Rightarrow> Some [a, b, c, d]
      | _ \<Rightarrow> None)"

definition hex_value :: "char \<Rightarrow> nat option" where
  "hex_value c =
     (let b = byte c in
      if 48 \<le> b \<and> b \<le> 57 then Some (b - 48)
      else if 97 \<le> b \<and> b \<le> 102 then Some (b - 87)
      else if 65 \<le> b \<and> b \<le> 70 then Some (b - 55) else None)"

text \<open>
  The loop of \<^verbatim>\<open>netip.parseIPv6\<close>: the bytes read so far, where the \<open>::\<close> stood, and the rest of
  the text. \<open>None\<close> is any of its error returns.
\<close>

function ipv6_groups ::
  "bytes \<Rightarrow> nat list \<Rightarrow> nat option \<Rightarrow> (nat list \<times> nat option \<times> bytes) option" where
  "ipv6_groups s ip ellipsis =
     (if 16 \<le> length ip then Some (ip, ellipsis, s)
      else
        let ds = takeWhile (\<lambda>c. hex_value c \<noteq> None) s;
            rest = dropWhile (\<lambda>c. hex_value c \<noteq> None) s;
            v = foldl (\<lambda>acc c. acc * 16 + the (hex_value c)) 0 ds
        in if ds = [] \<or> 4 < length ds then None
           else if rest \<noteq> [] \<and> hd rest = CHR ''.'' then
             (if ellipsis = None \<and> length ip \<noteq> 12 then None
              else if 16 < length ip + 4 then None
              else (case parse_ipv4 s of None \<Rightarrow> None | Some f \<Rightarrow> Some (ip @ f, ellipsis, [])))
           else
             let ip' = ip @ [v div 256, v mod 256] in
             if rest = [] then Some (ip', ellipsis, [])
             else if hd rest \<noteq> CHR '':'' \<or> length rest = 1 then None
             else if hd (tl rest) = CHR '':'' then
               (if ellipsis \<noteq> None then None
                else if tl (tl rest) = [] then Some (ip', Some (length ip'), [])
                else ipv6_groups (tl (tl rest)) ip' (Some (length ip')))
             else ipv6_groups (tl rest) ip' ellipsis)"
  by pat_completeness auto
termination
  by (relation "measure (\<lambda>(s, ip, e). 16 - length ip)") auto

declare ipv6_groups.simps [simp del]

definition parse_ipv6 :: "bytes \<Rightarrow> nat list option" where
  "parse_ipv6 s =
     (let lead = prefix ''::'' s; s' = (if lead then drop 2 s else s)
      in if lead \<and> s' = [] then Some (replicate 16 0)
         else (case ipv6_groups s' [] (if lead then Some 0 else None) of
                 None \<Rightarrow> None
               | Some (ip, ellipsis, rest) \<Rightarrow>
                   if rest \<noteq> [] then None
                   else if length ip < 16 then
                     (case ellipsis of
                        None \<Rightarrow> None
                      | Some e \<Rightarrow> Some (take e ip @ replicate (16 - length ip) 0 @ drop e ip))
                   else if ellipsis \<noteq> None then None else Some ip))"

datatype addr = Addr4 "nat list" | Addr6 "nat list"

text \<open>\<^verbatim>\<open>netip.ParseAddr\<close>, an address with a zone counted as none: both callers refuse one.\<close>

definition parse_addr :: "bytes \<Rightarrow> addr option" where
  "parse_addr s =
     (case find (\<lambda>c. c \<in> {CHR ''.'', CHR '':'', CHR ''%''}) s of
        None \<Rightarrow> None
      | Some c \<Rightarrow>
          if c = CHR ''.'' then map_option Addr4 (parse_ipv4 s)
          else if c = CHR '':'' \<and> CHR ''%'' \<notin> set s then map_option Addr6 (parse_ipv6 s)
          else None)"

definition v4_in_v6_prefix :: "nat list" where
  "v4_in_v6_prefix = replicate 10 0 @ [255, 255]"

fun as16 :: "addr \<Rightarrow> nat list" where
  "as16 (Addr4 ip) = v4_in_v6_prefix @ ip"
| "as16 (Addr6 ip) = ip"

fun bit_len :: "addr \<Rightarrow> nat" where
  "bit_len (Addr4 _) = 32"
| "bit_len (Addr6 _) = 128"

definition ParseIP :: "bytes \<Rightarrow> nat list option" where
  "ParseIP s = map_option as16 (parse_addr s)"

lemma dec_value_digits_only:
  "dec_value acc s = Some n \<Longrightarrow> c \<in> set s \<Longrightarrow> 48 \<le> byte c \<and> byte c \<le> 57"
  by (induction acc s arbitrary: n rule: dec_value.induct) (auto simp: Let_def split: if_splits)

lemma set_Split_on: "c \<in> set s \<Longrightarrow> c \<noteq> sep \<Longrightarrow> \<exists>f\<in>set (Split_on sep s). c \<in> set f"
  by (induction s) (force split: list.splits)+

lemma parse_ipv4_chars:
  assumes "parse_ipv4 s \<noteq> None" "c \<in> set s" "c \<noteq> CHR ''.''"
  shows "48 \<le> byte c \<and> byte c \<le> 57"
proof -
  from assms(2,3) obtain f where f: "f \<in> set (Split_on CHR ''.'' s)" "c \<in> set f"
    using set_Split_on by blast
  from assms(1) have "\<forall>x\<in>set (map octet (Split_on CHR ''.'' s)). x \<noteq> None"
    by (auto simp: parse_ipv4_def split: list.splits option.splits)
  with f have "octet f \<noteq> None" by auto
  with f(2) show ?thesis
    by (auto simp: octet_def split: if_splits option.splits dest: dec_value_digits_only)
qed

text \<open>No address with a zone identifier parses.\<close>

lemma ParseIP_zone: "CHR ''%'' \<in> set s \<Longrightarrow> ParseIP s = None"
  using parse_ipv4_chars [of s "CHR ''%''"]
  by (cases "parse_ipv4 s") (auto simp: ParseIP_def parse_addr_def byte_def split: option.splits)

section \<open>Networks\<close>

record ipnet =
  net_ip :: "nat list"
  net_mask :: "nat list"

definition to4 :: "nat list \<Rightarrow> nat list option" where
  "to4 ip =
     (if length ip = 4 then Some ip
      else if length ip = 16 \<and> take 12 ip = v4_in_v6_prefix then Some (drop 12 ip) else None)"

text \<open>\<^verbatim>\<open>CIDRMask(n, bits)\<close>: \<open>n\<close> ones followed by zeros, in bytes.\<close>

definition mask_byte :: "nat \<Rightarrow> nat" where
  "mask_byte n = (if 8 \<le> n then 255 else 255 - (255 div 2 ^ n))"

definition cidr_mask :: "nat \<Rightarrow> nat \<Rightarrow> nat list" where
  "cidr_mask n bits = map (\<lambda>i. mask_byte (n - 8 * i)) [0 ..< bits div 8]"

definition and_bytes :: "nat list \<Rightarrow> nat list \<Rightarrow> nat list" where
  "and_bytes xs ys = map2 (\<lambda>x y. x AND y) xs ys"

fun ip_mask :: "addr \<Rightarrow> nat list \<Rightarrow> nat list" where
  "ip_mask (Addr4 ip) m = and_bytes ip m"
| "ip_mask (Addr6 ip) m = and_bytes ip m"

definition ParseCIDR :: "bytes \<Rightarrow> ipnet option" where
  "ParseCIDR s =
     (let i = IndexByte s CHR ''/'' in
      if i < 0 then None
      else
        let a = take (nat i) s; m = drop (nat i + 1) s in
        (case parse_addr a of
           None \<Rightarrow> None
         | Some ad \<Rightarrow>
             if m = [] then None
             else (case dec_value 0 m of
                     None \<Rightarrow> None
                   | Some n \<Rightarrow>
                       if bit_len ad < n then None
                       else let mask = cidr_mask n (bit_len ad)
                            in Some \<lparr>net_ip = ip_mask ad mask, net_mask = mask\<rparr>)))"

text \<open>\<^verbatim>\<open>IPNet.Contains\<close>, with \<^verbatim>\<open>networkNumberAndMask\<close> inlined.\<close>

definition net_contains :: "ipnet \<Rightarrow> nat list \<Rightarrow> bool" where
  "net_contains n ip =
     (let nn = (case to4 (net_ip n) of Some x \<Rightarrow> x | None \<Rightarrow> net_ip n);
          m = (if length (net_mask n) = 16 \<and> length nn = 4 then drop 12 (net_mask n) else net_mask n);
          x = (case to4 ip of Some y \<Rightarrow> y | None \<Rightarrow> ip)
      in length nn = length m \<and> length x = length nn \<and> and_bytes nn m = and_bytes x m)"

section \<open>Host and port\<close>

text \<open>\<^verbatim>\<open>SplitHostPort\<close>; every error returns two empty strings and the error, which is dropped by the
  callers.\<close>

definition SplitHostPort :: "bytes \<Rightarrow> bytes \<times> bytes" where
  "SplitHostPort hp =
     (let i = LastIndexByte hp CHR '':'' in
      if i < 0 then ([], [])
      else if hd hp = CHR ''['' then
        (let e = IndexByte hp CHR '']'' in
         if e < 0 \<or> e + 1 \<noteq> i then ([], [])
         else if CHR ''['' \<in> set (drop 1 hp) \<or> CHR '']'' \<in> set (drop (nat e + 1) hp) then ([], [])
         else (take (nat e - 1) (drop 1 hp), drop (nat i + 1) hp))
      else
        let host = take (nat i) hp in
        if CHR '':'' \<in> set host \<or> CHR ''['' \<in> set hp \<or> CHR '']'' \<in> set hp then ([], [])
        else (host, drop (nat i + 1) hp))"

end
