(* ===== verification/Config.thy ===== *)
theory Config
  imports Go_Net
begin

text \<open>
  \<^verbatim>\<open>internal/config/config.go\<close>: the configuration tree, its defaults and its validation, and the
  declarative reading of what validation accepts.

  YAML decoding and the environment are outside: they are arguments of \<open>Load\<close>, where
  \<open>getenv\<close> stands for \<^verbatim>\<open>os.Getenv\<close>. A Go string type with named constants (\<^verbatim>\<open>TLSMode\<close>,
  \<^verbatim>\<open>CertMode\<close>, \<^verbatim>\<open>Mode\<close>) is a string here too, since a file can hold any other text there.
  A \<^verbatim>\<open>Duration\<close> is its number of nanoseconds.
\<close>

section \<open>The configuration tree\<close>

record web =
  wb_listen :: string

definition web_Enabled :: "web \<Rightarrow> bool" where
  "web_Enabled w \<longleftrightarrow> wb_listen w \<noteq> []"

type_synonym tls_mode = string

definition TLSModeNone :: tls_mode where "TLSModeNone = ''none''"
definition TLSModeStartTLS :: tls_mode where "TLSModeStartTLS = ''starttls''"
definition TLSModeImplicit :: tls_mode where "TLSModeImplicit = ''implicit''"

record listener =
  ls_address :: string
  ls_tls :: tls_mode
  ls_insecure_auth :: bool

definition NeedsCert :: "listener \<Rightarrow> bool" where
  "NeedsCert l \<longleftrightarrow> ls_tls l = TLSModeStartTLS \<or> ls_tls l = TLSModeImplicit"

type_synonym cert_mode = string

definition CertModeNone :: cert_mode where "CertModeNone = ''none''"
definition CertModeFiles :: cert_mode where "CertModeFiles = ''files''"
definition CertModeAuto :: cert_mode where "CertModeAuto = ''auto''"

record tls =
  tl_mode :: cert_mode
  tl_cert_file :: string
  tl_key_file :: string
  tl_hostnames :: "string list"
  tl_acme_email :: string
  tl_dns_provider :: string
  tl_cf_api_token :: string
  tl_ca_dir_url :: string
  tl_storage_path :: string

record auth =
  au_allow_ips :: "string list"

record logging =
  lg_enabled :: bool
  lg_database :: string
  lg_rejections :: "bool option"
  lg_rejection_retention_days :: int

definition LogRejections :: "logging \<Rightarrow> bool" where
  "LogRejections l \<longleftrightarrow> lg_rejections l = None \<or> lg_rejections l = Some True"

type_synonym mode = string

definition ModeAsync :: mode where "ModeAsync = ''async''"
definition ModeSync :: mode where "ModeSync = ''sync''"

record delivery =
  dl_default_mode :: mode
  dl_timeout :: int
  dl_max_retries :: int
  dl_retry_backoff :: int
  dl_concurrency :: int

record match =
  mt_rcpt :: string
  mt_rcpt_domain :: string
  mt_rcpt_localpart :: string

record webhook =
  wh_url :: string
  wh_method :: string
  wh_secret :: string
  wh_headers :: "(string \<times> string) list"

record include_rules =
  in_raw :: bool
  in_attachments :: bool
  in_max_attachment_bytes :: int

record route =
  rt_name :: string
  rt_username :: string
  rt_password :: string
  rt_password_bcrypt :: string
  rt_match :: match
  rt_webhook :: webhook
  rt_mode :: mode
  rt_include :: include_rules

definition HasWebhook :: "route \<Rightarrow> bool" where
  "HasWebhook r \<longleftrightarrow> wh_url (rt_webhook r) \<noteq> []"

definition EffectiveMode :: "route \<Rightarrow> mode \<Rightarrow> mode" where
  "EffectiveMode r def =
     (if rt_mode r \<noteq> [] then rt_mode r else if def \<noteq> [] then def else ModeAsync)"

record config =
  cf_listeners :: "listener list"
  cf_hostname :: string
  cf_max_message_bytes :: int
  cf_read_timeout :: int
  cf_write_timeout :: int
  cf_tls :: tls
  cf_auth :: auth
  cf_logging :: logging
  cf_web :: web
  cf_delivery :: delivery
  cf_routes :: "route list"

lemmas mode_defs = TLSModeNone_def TLSModeStartTLS_def TLSModeImplicit_def
  CertModeNone_def CertModeFiles_def CertModeAuto_def ModeAsync_def ModeSync_def

section \<open>Defaults\<close>

definition second :: int where
  "second = 1000000000"

definition or_default :: "'a \<Rightarrow> 'a \<Rightarrow> 'a \<Rightarrow> 'a" where
  "or_default zero def x = (if x = zero then def else x)"

lemma or_default_idem [simp]:
  "or_default zero def (or_default zero def x) = or_default zero def x"
  by (simp add: or_default_def)

lemma or_default_neq [simp]: "def \<noteq> zero \<Longrightarrow> or_default zero def x \<noteq> zero"
  by (simp add: or_default_def)

definition default_listeners :: "listener list \<Rightarrow> listener list" where
  "default_listeners ls =
     map (\<lambda>l. l\<lparr>ls_tls := or_default [] TLSModeNone (ls_tls l)\<rparr>)
       (if ls = []
        then [\<lparr>ls_address = '':2525'', ls_tls = TLSModeNone, ls_insecure_auth = False\<rparr>]
        else ls)"

definition default_tls :: "tls \<Rightarrow> tls" where
  "default_tls t =
     (let t1 = t\<lparr>tl_mode := or_default [] CertModeNone (tl_mode t)\<rparr> in
      if tl_mode t1 = CertModeAuto
      then t1\<lparr>tl_dns_provider := or_default [] ''cloudflare'' (tl_dns_provider t1),
              tl_storage_path := or_default [] ''./certs'' (tl_storage_path t1)\<rparr>
      else t1)"

definition default_delivery :: "delivery \<Rightarrow> delivery" where
  "default_delivery d =
     d\<lparr>dl_default_mode := or_default [] ModeAsync (dl_default_mode d),
       dl_timeout := or_default 0 (30 * second) (dl_timeout d),
       dl_max_retries := or_default 0 5 (dl_max_retries d),
       dl_retry_backoff := or_default 0 (10 * second) (dl_retry_backoff d),
       dl_concurrency := or_default 0 4 (dl_concurrency d)\<rparr>"

definition default_route :: "route \<Rightarrow> route" where
  "default_route r =
     r\<lparr>rt_webhook := (rt_webhook r)\<lparr>wh_method := or_default [] ''POST'' (wh_method (rt_webhook r))\<rparr>\<rparr>"

definition applyDefaults :: "config \<Rightarrow> config" where
  "applyDefaults c =
     c\<lparr>cf_listeners := default_listeners (cf_listeners c),
       cf_tls := default_tls (cf_tls c),
       cf_hostname := or_default [] ''localhost'' (cf_hostname c),
       cf_max_message_bytes := or_default 0 (25 * 1024 * 1024) (cf_max_message_bytes c),
       cf_read_timeout := or_default 0 (60 * second) (cf_read_timeout c),
       cf_write_timeout := or_default 0 (60 * second) (cf_write_timeout c),
       cf_delivery := default_delivery (cf_delivery c),
       cf_logging := (cf_logging c)\<lparr>lg_database :=
         or_default [] ''./smtp-bridge.db'' (lg_database (cf_logging c))\<rparr>,
       cf_routes := map default_route (cf_routes c)\<rparr>"

section \<open>Validation\<close>

datatype config_error =
    BadCIDR string
  | ListenerAddressRequired nat
  | ListenerInvalidTLS string string
  | CertRequired
  | CertFilesMissing
  | AutoHostnamesEmpty
  | DNSProviderUnsupported string
  | TokenMissing
  | CertModeInvalid string
  | NoRoutes
  | RouteNameRequired nat
  | RouteDuplicateName string
  | RouteUsernameRequired string
  | RouteCredentialMissing string
  | RouteCredentialBoth string
  | ConflictingPasswords string
  | CaptureNeedsLogging string
  | RouteInvalidMode string string

definition needsCert :: "config \<Rightarrow> bool" where
  "needsCert c \<longleftrightarrow> list_ex NeedsCert (cf_listeners c)"

text \<open>\<open>i\<close> is the index of the first listener of the list.\<close>

fun validate_listeners :: "nat \<Rightarrow> listener list \<Rightarrow> config_error option" where
  "validate_listeners i [] = None"
| "validate_listeners i (l # ls) =
     (if ls_address l = [] then Some (ListenerAddressRequired i)
      else if ls_tls l \<notin> {TLSModeNone, TLSModeStartTLS, TLSModeImplicit}
      then Some (ListenerInvalidTLS (ls_address l) (ls_tls l))
      else validate_listeners (Suc i) ls)"

definition validateTLS :: "(string \<Rightarrow> string) \<Rightarrow> config \<Rightarrow> config_error option" where
  "validateTLS getenv c =
     (case validate_listeners 0 (cf_listeners c) of
        Some e \<Rightarrow> Some e
      | None \<Rightarrow>
          let t = cf_tls c in
          if tl_mode t = CertModeNone then (if needsCert c then Some CertRequired else None)
          else if tl_mode t = CertModeFiles then
            (if tl_cert_file t = [] \<or> tl_key_file t = [] then Some CertFilesMissing else None)
          else if tl_mode t = CertModeAuto then
            (if tl_hostnames t = [] then Some AutoHostnamesEmpty
             else if tl_dns_provider t \<noteq> ''cloudflare''
             then Some (DNSProviderUnsupported (tl_dns_provider t))
             else if tl_cf_api_token t = [] \<and> getenv ''CLOUDFLARE_API_TOKEN'' = []
             then Some TokenMissing else None)
          else Some (CertModeInvalid (tl_mode t)))"

fun validate_cidrs :: "string list \<Rightarrow> config_error option" where
  "validate_cidrs [] = None"
| "validate_cidrs (cidr # cs) =
     (case ParseCIDR cidr of None \<Rightarrow> Some (BadCIDR cidr) | Some _ \<Rightarrow> validate_cidrs cs)"

text \<open>The string two routes of one user must agree on.\<close>

definition route_cred :: "route \<Rightarrow> string" where
  "route_cred r = rt_password r @ [nul] @ rt_password_bcrypt r"

text \<open>
  The loop over the routes: \<open>i\<close> the index, \<open>seen\<close> the names so far, \<open>creds\<close> the credential
  string last stored for each username.
\<close>

fun validate_routes ::
  "config \<Rightarrow> nat \<Rightarrow> string set \<Rightarrow> (string \<rightharpoonup> string) \<Rightarrow> route list \<Rightarrow> config_error option" where
  "validate_routes c i seen creds [] = None"
| "validate_routes c i seen creds (r # rs) =
     (if rt_name r = [] then Some (RouteNameRequired i)
      else if rt_name r \<in> seen then Some (RouteDuplicateName (rt_name r))
      else if rt_username r = [] then Some (RouteUsernameRequired (rt_name r))
      else if rt_password r = [] \<and> rt_password_bcrypt r = []
      then Some (RouteCredentialMissing (rt_name r))
      else if rt_password r \<noteq> [] \<and> rt_password_bcrypt r \<noteq> []
      then Some (RouteCredentialBoth (rt_name r))
      else
        let cred = route_cred r in
        if (case creds (rt_username r) of None \<Rightarrow> False | Some prev \<Rightarrow> prev \<noteq> cred)
        then Some (ConflictingPasswords (rt_username r))
        else if \<not> HasWebhook r \<and> \<not> lg_enabled (cf_logging c)
        then Some (CaptureNeedsLogging (rt_name r))
        else if EffectiveMode r (dl_default_mode (cf_delivery c)) \<notin> {ModeAsync, ModeSync}
        then Some (RouteInvalidMode (rt_name r) (rt_mode r))
        else validate_routes c (Suc i) (insert (rt_name r) seen)
               (creds(rt_username r \<mapsto> cred)) rs)"

definition Validate :: "(string \<Rightarrow> string) \<Rightarrow> config \<Rightarrow> config_error option" where
  "Validate getenv c =
     (case validate_cidrs (au_allow_ips (cf_auth c)) of
        Some e \<Rightarrow> Some e
      | None \<Rightarrow>
          (case validateTLS getenv c of
             Some e \<Rightarrow> Some e
           | None \<Rightarrow>
               if cf_routes c = [] then Some NoRoutes
               else validate_routes c 0 {} Map.empty (cf_routes c)))"

definition Prepare :: "(string \<Rightarrow> string) \<Rightarrow> config \<Rightarrow> config_error option \<times> config" where
  "Prepare getenv c = (let c' = applyDefaults c in (Validate getenv c', c'))"

text \<open>Reading the file and decoding its YAML strictly are the arguments \<open>read_file\<close> and \<open>decode\<close>.\<close>

datatype load_error = ReadError string | ParseError string | InvalidConfig config_error

definition Load ::
  "(string \<Rightarrow> string + bytes) \<Rightarrow> (bytes \<Rightarrow> string + config) \<Rightarrow> (string \<Rightarrow> string) \<Rightarrow> string
    \<Rightarrow> load_error + config" where
  "Load read_file decode getenv path =
     (case read_file path of
        Inl err \<Rightarrow> Inl (ReadError err)
      | Inr data \<Rightarrow>
          (case decode data of
             Inl err \<Rightarrow> Inl (ParseError err)
           | Inr c \<Rightarrow>
               (case Prepare getenv c of
                  (Some err, _) \<Rightarrow> Inl (InvalidConfig err)
                | (None, c') \<Rightarrow> Inr c')))"

section \<open>What validation accepts\<close>

definition route_ok :: "config \<Rightarrow> route \<Rightarrow> bool" where
  "route_ok c r \<longleftrightarrow>
     rt_name r \<noteq> [] \<and> rt_username r \<noteq> []
     \<and> (rt_password r = [] \<longleftrightarrow> rt_password_bcrypt r \<noteq> [])
     \<and> (HasWebhook r \<or> lg_enabled (cf_logging c))
     \<and> EffectiveMode r (dl_default_mode (cf_delivery c)) \<in> {ModeAsync, ModeSync}"

definition routes_ok :: "config \<Rightarrow> bool" where
  "routes_ok c \<longleftrightarrow>
     cf_routes c \<noteq> [] \<and> distinct (map rt_name (cf_routes c))
     \<and> (\<forall>r\<in>set (cf_routes c). route_ok c r)
     \<and> (\<forall>r\<in>set (cf_routes c). \<forall>r'\<in>set (cf_routes c).
          rt_username r = rt_username r' \<longrightarrow> route_cred r = route_cred r')"

definition listener_ok :: "listener \<Rightarrow> bool" where
  "listener_ok l \<longleftrightarrow>
     ls_address l \<noteq> [] \<and> ls_tls l \<in> {TLSModeNone, TLSModeStartTLS, TLSModeImplicit}"

definition tls_ok :: "(string \<Rightarrow> string) \<Rightarrow> config \<Rightarrow> bool" where
  "tls_ok getenv c \<longleftrightarrow>
     (let t = cf_tls c in
      tl_mode t = CertModeNone \<and> (\<forall>l\<in>set (cf_listeners c). \<not> NeedsCert l)
      \<or> tl_mode t = CertModeFiles \<and> tl_cert_file t \<noteq> [] \<and> tl_key_file t \<noteq> []
      \<or> tl_mode t = CertModeAuto \<and> tl_hostnames t \<noteq> [] \<and> tl_dns_provider t = ''cloudflare''
        \<and> (tl_cf_api_token t \<noteq> [] \<or> getenv ''CLOUDFLARE_API_TOKEN'' \<noteq> []))"

definition valid_config :: "(string \<Rightarrow> string) \<Rightarrow> config \<Rightarrow> bool" where
  "valid_config getenv c \<longleftrightarrow>
     (\<forall>a\<in>set (au_allow_ips (cf_auth c)). ParseCIDR a \<noteq> None)
     \<and> (\<forall>l\<in>set (cf_listeners c). listener_ok l) \<and> tls_ok getenv c \<and> routes_ok c"

lemma validate_cidrs_None: "validate_cidrs cs = None \<longleftrightarrow> (\<forall>a\<in>set cs. ParseCIDR a \<noteq> None)"
  by (induction cs) (auto split: option.splits)

lemma validate_listeners_None: "validate_listeners i ls = None \<longleftrightarrow> (\<forall>l\<in>set ls. listener_ok l)"
  by (induction ls arbitrary: i) (auto simp: listener_ok_def)

lemma validateTLS_None:
  "validateTLS getenv c = None \<longleftrightarrow> (\<forall>l\<in>set (cf_listeners c). listener_ok l) \<and> tls_ok getenv c"
proof (cases "validate_listeners 0 (cf_listeners c)")
  case None
  moreover have "\<forall>l\<in>set (cf_listeners c). listener_ok l"
    using None by (simp only: validate_listeners_None)
  ultimately show ?thesis
    by (simp add: validateTLS_def tls_ok_def Let_def needsCert_def list_ex_iff mode_defs)
next
  case (Some e)
  moreover have "\<not> (\<forall>l\<in>set (cf_listeners c). listener_ok l)"
    using Some by (metis option.distinct(1) validate_listeners_None)
  ultimately show ?thesis by (simp add: validateTLS_def)
qed

text \<open>The loop's state agrees with the routes already passed: \<open>seen\<close> has their names and
  \<open>creds\<close> the credential of each of their users.\<close>

lemma validate_routes_None:
  "validate_routes c i seen creds rs = None \<longleftrightarrow>
     distinct (map rt_name rs) \<and> seen \<inter> rt_name ` set rs = {} \<and> (\<forall>r\<in>set rs. route_ok c r)
     \<and> (\<forall>r\<in>set rs. creds (rt_username r) \<in> {None, Some (route_cred r)})
     \<and> (\<forall>r\<in>set rs. \<forall>r'\<in>set rs. rt_username r = rt_username r' \<longrightarrow> route_cred r = route_cred r')"
proof (induction rs arbitrary: i seen creds)
  case Nil
  then show ?case by simp
next
  case (Cons r rs)
  have step: "validate_routes c i seen creds (r # rs) = None \<longleftrightarrow>
      rt_name r \<notin> seen \<and> route_ok c r \<and> creds (rt_username r) \<in> {None, Some (route_cred r)}
      \<and> validate_routes c (Suc i) (insert (rt_name r) seen) (creds(rt_username r \<mapsto> route_cred r)) rs
          = None"
    by (auto simp: route_ok_def Let_def split: option.splits)
  have upd: "creds (rt_username r) \<in> {None, Some (route_cred r)}
      \<and> (\<forall>x\<in>set rs. (creds(rt_username r \<mapsto> route_cred r)) (rt_username x)
          \<in> {None, Some (route_cred x)}) \<longleftrightarrow>
      (\<forall>x\<in>set (r # rs). creds (rt_username x) \<in> {None, Some (route_cred x)})
      \<and> (\<forall>x\<in>set rs. rt_username r = rt_username x \<longrightarrow> route_cred r = route_cred x)"
    (is "?c r \<and> (\<forall>x\<in>_. ?u x) \<longleftrightarrow> _")
  proof -
    have "?c r \<Longrightarrow>
        ?u x \<longleftrightarrow> ?c x \<and> (rt_username r = rt_username x \<longrightarrow> route_cred r = route_cred x)" for x
      by (cases "rt_username r = rt_username x") auto
    then have all: "?c r \<Longrightarrow> (\<forall>x\<in>set rs. ?u x) \<longleftrightarrow> (\<forall>x\<in>set rs. ?c x)
        \<and> (\<forall>x\<in>set rs. rt_username r = rt_username x \<longrightarrow> route_cred r = route_cred x)"
      by blast
    show ?thesis
    proof (cases "?c r")
      case True
      from all [OF True] True show ?thesis by (simp only: set_simps ball_simps simp_thms)
    next
      case False
      then show ?thesis by (simp only: set_simps ball_simps simp_thms)
    qed
  qed
  note pairs = agree_on_Cons [where f = rt_username and g = route_cred]
  have names: "rt_name r \<notin> seen \<and> distinct (map rt_name rs)
        \<and> insert (rt_name r) seen \<inter> rt_name ` set rs = {} \<longleftrightarrow>
      distinct (map rt_name (r # rs)) \<and> seen \<inter> rt_name ` set (r # rs) = {}"
    by auto
  have oks: "(\<forall>x\<in>set (r # rs). route_ok c x) \<longleftrightarrow> route_ok c r \<and> (\<forall>x\<in>set rs. route_ok c x)"
    by simp
  show ?case
    unfolding step Cons.IH pairs oks using names upd by argo
qed

lemma Validate_None: "Validate getenv c = None \<longleftrightarrow> valid_config getenv c"
proof -
  have routes: "(if cf_routes c = [] then Some NoRoutes
      else validate_routes c 0 {} Map.empty (cf_routes c)) = None \<longleftrightarrow> routes_ok c"
    by (auto simp: validate_routes_None routes_ok_def)
  have "Validate getenv c = None \<longleftrightarrow>
      validate_cidrs (au_allow_ips (cf_auth c)) = None \<and> validateTLS getenv c = None
      \<and> (if cf_routes c = [] then Some NoRoutes
         else validate_routes c 0 {} Map.empty (cf_routes c)) = None"
    by (cases "validate_cidrs (au_allow_ips (cf_auth c))"; cases "validateTLS getenv c")
      (simp_all add: Validate_def)
  then show ?thesis
    by (simp only: validate_cidrs_None validateTLS_None routes valid_config_def conj_assoc)
qed

lemma Load_valid:
  "Load read_file decode getenv path = Inr c \<Longrightarrow>
     valid_config getenv c \<and> (\<exists>data c0. read_file path = Inr data \<and> decode data = Inr c0 \<and> c = applyDefaults c0)"
  by (auto simp: Load_def Prepare_def Let_def Validate_None split: sum.splits option.splits)

lemma Load_normal:
  assumes "applyDefaults c = c" "valid_config getenv c"
  shows "Load (\<lambda>_. Inr d) (\<lambda>_. Inr c) getenv path = Inr c"
proof -
  have "Validate getenv c = None" using assms(2) by (simp add: Validate_None)
  with assms(1) show ?thesis by (simp add: Load_def Prepare_def)
qed

section \<open>Properties\<close>

text \<open>C10: validation decides exactly the declarative reading of the configuration: every allowlist
  entry is a network, every listener has an address and a known mode, the certificate source fits the
  listeners, there is a route, names are distinct, every route has an owner with exactly one kind of
  password, users have one credential across their routes, capture-only routes have the log on, and
  modes are known.\<close>

theorem Validate_iff: "Validate getenv c = None \<longleftrightarrow> valid_config getenv c"
  by (rule Validate_None)

section \<open>Normal form\<close>

lemma default_listeners_idem: "default_listeners (default_listeners ls) = default_listeners ls"
  by (auto simp: default_listeners_def or_default_def mode_defs)

lemma default_tls_idem: "default_tls (default_tls t) = default_tls t"
  by (auto simp: default_tls_def or_default_def mode_defs Let_def)

lemma default_delivery_idem: "default_delivery (default_delivery d) = default_delivery d"
  by (simp add: default_delivery_def)

lemma default_route_idem: "default_route (default_route r) = default_route r"
  by (simp add: default_route_def)

text \<open>A setting \<open>x\<close> that becomes \<open>y\<close>: kept when given, the default otherwise.\<close>

definition given_or :: "'a \<Rightarrow> 'a \<Rightarrow> 'a \<Rightarrow> 'a \<Rightarrow> bool" where
  "given_or zero def x y \<longleftrightarrow> (x \<noteq> zero \<longrightarrow> y = x) \<and> (x = zero \<longrightarrow> y = def)"

definition defaulted_listener :: "listener \<Rightarrow> listener \<Rightarrow> bool" where
  "defaulted_listener l l' \<longleftrightarrow> given_or [] ''none'' (ls_tls l) (ls_tls l') \<and> l'\<lparr>ls_tls := ls_tls l\<rparr> = l"

definition defaulted_tls :: "tls \<Rightarrow> tls \<Rightarrow> bool" where
  "defaulted_tls t t' \<longleftrightarrow> given_or [] ''none'' (tl_mode t) (tl_mode t')
     \<and> (if tl_mode t = ''auto''
        then given_or [] ''cloudflare'' (tl_dns_provider t) (tl_dns_provider t')
          \<and> given_or [] ''./certs'' (tl_storage_path t) (tl_storage_path t')
        else tl_dns_provider t' = tl_dns_provider t \<and> tl_storage_path t' = tl_storage_path t)
     \<and> t'\<lparr>tl_mode := tl_mode t, tl_dns_provider := tl_dns_provider t, tl_storage_path := tl_storage_path t\<rparr> = t"

definition defaulted_delivery :: "delivery \<Rightarrow> delivery \<Rightarrow> bool" where
  "defaulted_delivery d d' \<longleftrightarrow> given_or [] ''async'' (dl_default_mode d) (dl_default_mode d')
     \<and> given_or 0 30000000000 (dl_timeout d) (dl_timeout d')
     \<and> given_or 0 5 (dl_max_retries d) (dl_max_retries d')
     \<and> given_or 0 10000000000 (dl_retry_backoff d) (dl_retry_backoff d')
     \<and> given_or 0 4 (dl_concurrency d) (dl_concurrency d')"

definition defaulted_route :: "route \<Rightarrow> route \<Rightarrow> bool" where
  "defaulted_route r r' \<longleftrightarrow> given_or [] ''POST'' (wh_method (rt_webhook r)) (wh_method (rt_webhook r'))
     \<and> r'\<lparr>rt_webhook := (rt_webhook r')\<lparr>wh_method := wh_method (rt_webhook r)\<rparr>\<rparr> = r"

lemma defaulted_parts:
  "list_all2 defaulted_listener ls (map (\<lambda>l. l\<lparr>ls_tls := or_default [] TLSModeNone (ls_tls l)\<rparr>) ls)"
  "defaulted_tls t (default_tls t)" "defaulted_delivery d (default_delivery d)"
  "list_all2 defaulted_route rs (map default_route rs)"
proof -
  show "list_all2 defaulted_listener ls (map (\<lambda>l. l\<lparr>ls_tls := or_default [] TLSModeNone (ls_tls l)\<rparr>) ls)"
    by (induction ls) (auto simp: defaulted_listener_def given_or_def or_default_def mode_defs)
  show "defaulted_tls t (default_tls t)"
    by (auto simp: defaulted_tls_def default_tls_def given_or_def or_default_def mode_defs Let_def)
  show "defaulted_delivery d (default_delivery d)"
    by (simp add: defaulted_delivery_def default_delivery_def given_or_def or_default_def second_def mode_defs)
  show "list_all2 defaulted_route rs (map default_route rs)"
    by (induction rs) (auto simp: defaulted_route_def default_route_def given_or_def or_default_def)
qed

text \<open>C36: the defaults are what they say, setting by setting: a setting that was given is kept, and one
  that was left at its zero value gets its default, the provider and the storage of certificates only
  for ACME; an empty list of listeners becomes one plain listener on port 2525, and otherwise
  listeners and routes keep their number and order; nothing else is touched, the names, owners,
  passwords, conditions and targets of the routes included. Applying the defaults again changes
  nothing.\<close>

theorem applyDefaults_normal:
  fixes c :: config
  defines "c' \<equiv> applyDefaults c"
  shows "applyDefaults c' = c'
   \<and> (if cf_listeners c = []
      then cf_listeners c' = [\<lparr>ls_address = '':2525'', ls_tls = ''none'', ls_insecure_auth = False\<rparr>]
      else list_all2 defaulted_listener (cf_listeners c) (cf_listeners c'))
   \<and> given_or [] ''localhost'' (cf_hostname c) (cf_hostname c')
   \<and> given_or 0 26214400 (cf_max_message_bytes c) (cf_max_message_bytes c')
   \<and> given_or 0 60000000000 (cf_read_timeout c) (cf_read_timeout c')
   \<and> given_or 0 60000000000 (cf_write_timeout c) (cf_write_timeout c')
   \<and> given_or [] ''./smtp-bridge.db'' (lg_database (cf_logging c)) (lg_database (cf_logging c'))
   \<and> (cf_logging c')\<lparr>lg_database := lg_database (cf_logging c)\<rparr> = cf_logging c
   \<and> defaulted_tls (cf_tls c) (cf_tls c')
   \<and> defaulted_delivery (cf_delivery c) (cf_delivery c')
   \<and> list_all2 defaulted_route (cf_routes c) (cf_routes c')
   \<and> cf_auth c' = cf_auth c \<and> cf_web c' = cf_web c"
proof -
  have "applyDefaults c' = c'"
    by (simp add: c'_def applyDefaults_def default_listeners_idem default_tls_idem default_delivery_idem
        default_route_idem comp_def)
  moreover have "if cf_listeners c = []
      then cf_listeners c' = [\<lparr>ls_address = '':2525'', ls_tls = ''none'', ls_insecure_auth = False\<rparr>]
      else list_all2 defaulted_listener (cf_listeners c) (cf_listeners c')"
    using defaulted_parts(1) [of "cf_listeners c"]
    by (simp add: c'_def applyDefaults_def default_listeners_def or_default_def mode_defs)
  ultimately show ?thesis
    using defaulted_parts(2-4)
    by (simp add: c'_def applyDefaults_def given_or_def or_default_def second_def)
qed

definition empty_config :: config where
  "empty_config =
     \<lparr>cf_listeners = [], cf_hostname = [], cf_max_message_bytes = 0, cf_read_timeout = 0,
      cf_write_timeout = 0,
      cf_tls = \<lparr>tl_mode = [], tl_cert_file = [], tl_key_file = [], tl_hostnames = [], tl_acme_email = [],
        tl_dns_provider = [], tl_cf_api_token = [], tl_ca_dir_url = [], tl_storage_path = []\<rparr>,
      cf_auth = \<lparr>au_allow_ips = []\<rparr>,
      cf_logging = \<lparr>lg_enabled = False, lg_database = [], lg_rejections = None,
        lg_rejection_retention_days = 0\<rparr>,
      cf_web = \<lparr>wb_listen = []\<rparr>,
      cf_delivery = \<lparr>dl_default_mode = [], dl_timeout = 0, dl_max_retries = 0, dl_retry_backoff = 0,
        dl_concurrency = 0\<rparr>,
      cf_routes = []\<rparr>"

theorem applyDefaults_normal_witness:
  "ls_address (hd (cf_listeners (applyDefaults empty_config))) = '':2525''
   \<and> dl_concurrency (cf_delivery (applyDefaults empty_config)) = 4"
  using applyDefaults_normal [of empty_config]
  by (simp add: empty_config_def defaulted_delivery_def given_or_def)

end
