(* ===== verification/Router.thy ===== *)
theory Router
  imports Config
begin

text \<open>
  \<^verbatim>\<open>internal/router/router.go\<close>: the first configured route of a user that accepts a recipient.

  The recipient is taken apart into local part and domain at its last at-sign, the local part is
  cut at its first plus sign, and a route matches when every non-empty condition of its match block
  holds under Go's case-insensitive \<^verbatim>\<open>EqualFold\<close>. \<open>F\<close> is the case-folding table of
  \<^verbatim>\<open>unicode.SimpleFold\<close> beyond ASCII.
\<close>

section \<open>Operations\<close>

definition split_addr :: "string \<Rightarrow> string \<times> string" where
  "split_addr addr =
     (let at = LastIndexByte addr CHR ''@'' in
      if at < 0 then (addr, [])
      else (take (nat at) addr, drop (nat at + 1) addr))"

definition stripTag :: "string \<Rightarrow> string" where
  "stripTag local = (let i = IndexByte local CHR ''+'' in if 0 \<le> i then take (nat i) local else local)"

definition matches ::
  "(nat \<Rightarrow> nat) \<Rightarrow> match \<Rightarrow> string \<Rightarrow> string \<Rightarrow> string \<Rightarrow> bool" where
  "matches F m rcpt localBase domain =
     (if mt_rcpt m \<noteq> [] \<and> \<not> EqualFold F (mt_rcpt m) rcpt then False
      else if mt_rcpt_domain m \<noteq> [] \<and> \<not> EqualFold F (mt_rcpt_domain m) domain then False
      else if mt_rcpt_localpart m \<noteq> [] \<and> \<not> EqualFold F (mt_rcpt_localpart m) localBase then False
      else True)"

fun match_routes ::
  "(nat \<Rightarrow> nat) \<Rightarrow> string \<Rightarrow> string \<Rightarrow> string \<Rightarrow> string \<Rightarrow> route list \<Rightarrow> route option" where
  "match_routes F username rcpt localBase domain [] = None"
| "match_routes F username rcpt localBase domain (rt # rts) =
     (if rt_username rt \<noteq> username
      then match_routes F username rcpt localBase domain rts
      else if matches F (rt_match rt) rcpt localBase domain then Some rt
      else match_routes F username rcpt localBase domain rts)"

definition Match :: "(nat \<Rightarrow> nat) \<Rightarrow> route list \<Rightarrow> string \<Rightarrow> string \<Rightarrow> route option" where
  "Match F routes username rcpt =
     (let (local, domain) = split_addr rcpt; localBase = stripTag local
      in match_routes F username rcpt localBase domain routes)"

section \<open>Addresses\<close>

lemma split_addr_at [simp]:
  "CHR ''@'' \<notin> set domain \<Longrightarrow> split_addr (local @ CHR ''@'' # domain) = (local, domain)"
  by (simp add: split_addr_def LastIndexByte_append_notin Let_def)

lemma split_addr_no_at: "CHR ''@'' \<notin> set addr \<Longrightarrow> split_addr addr = (addr, [])"
  by (simp add: split_addr_def)

lemma stripTag_tag [simp]: "CHR ''+'' \<notin> set base \<Longrightarrow> stripTag (base @ CHR ''+'' # tag) = base"
  by (simp add: stripTag_def IndexByte_append_notin Let_def)

lemma stripTag_no_tag [simp]: "CHR ''+'' \<notin> set base \<Longrightarrow> stripTag base = base"
  using IndexByte_neg_iff [of base "CHR ''+''"] by (simp add: stripTag_def Let_def del: IndexByte_neg_iff)

text \<open>What the route condition says of a recipient.\<close>

definition route_accepts :: "(nat \<Rightarrow> nat) \<Rightarrow> route \<Rightarrow> string \<Rightarrow> string \<Rightarrow> bool" where
  "route_accepts F rt username rcpt \<longleftrightarrow>
     rt_username rt = username
     \<and> (mt_rcpt (rt_match rt) = [] \<or> EqualFold F (mt_rcpt (rt_match rt)) rcpt)
     \<and> (mt_rcpt_domain (rt_match rt) = []
        \<or> EqualFold F (mt_rcpt_domain (rt_match rt)) (snd (split_addr rcpt)))
     \<and> (mt_rcpt_localpart (rt_match rt) = []
        \<or> EqualFold F (mt_rcpt_localpart (rt_match rt)) (stripTag (fst (split_addr rcpt))))"

lemma matches_iff:
  "matches F m rcpt localBase domain \<longleftrightarrow>
     (mt_rcpt m = [] \<or> EqualFold F (mt_rcpt m) rcpt)
     \<and> (mt_rcpt_domain m = [] \<or> EqualFold F (mt_rcpt_domain m) domain)
     \<and> (mt_rcpt_localpart m = [] \<or> EqualFold F (mt_rcpt_localpart m) localBase)"
  by (simp add: matches_def)

lemma Match_find: "Match F routes username rcpt = find (\<lambda>rt. route_accepts F rt username rcpt) routes"
proof -
  have "match_routes F username rcpt (stripTag (fst (split_addr rcpt))) (snd (split_addr rcpt)) routes
      = find (\<lambda>rt. route_accepts F rt username rcpt) routes"
    by (induction routes) (auto simp: route_accepts_def matches_iff)
  then show ?thesis by (simp add: Match_def case_prod_beta Let_def)
qed

section \<open>The contract of routing\<close>

text \<open>
  What the server relies on: a match is one of the configured routes and belongs to the user it was
  asked for.
\<close>

locale route_matcher =
  fixes lookup :: "string \<Rightarrow> string \<Rightarrow> route option"
    and configured :: "route set"
  assumes lookup_configured: "lookup u rcpt = Some rt \<Longrightarrow> rt \<in> configured"
    and lookup_owner: "lookup u rcpt = Some rt \<Longrightarrow> rt_username rt = u"
begin

text \<open>A user no route belongs to can reach nothing.\<close>

lemma lookup_stranger: "(\<And>rt. rt \<in> configured \<Longrightarrow> rt_username rt \<noteq> u) \<Longrightarrow> lookup u rcpt = None"
  by (cases "lookup u rcpt") (auto dest: lookup_configured lookup_owner)

text \<open>Two users never get the same route.\<close>

lemma lookup_disjoint: "lookup u rcpt = Some rt \<Longrightarrow> lookup u' rcpt' = Some rt \<Longrightarrow> u = u'"
  by (auto dest: lookup_owner)

end

interpretation rm: route_matcher "Match F routes" "set routes" for F routes
  by unfold_locales (auto simp: Match_find find_Some_iff route_accepts_def)

lemma Match_None_iff:
  "Match F routes u rcpt = None \<longleftrightarrow> (\<forall>rt\<in>set routes. \<not> route_accepts F rt u rcpt)"
  by (auto simp: Match_find find_None_iff)

section \<open>Properties\<close>

text \<open>C24: \<open>Match\<close> returns a route exactly when it is the first route in configuration order that
  belongs to the user and all of whose non-empty recipient conditions hold, and it returns none
  exactly when no route of the list does.\<close>

theorem Match_first:
  "(Match F routes username rcpt = Some rt \<longleftrightarrow>
     (\<exists>before rest. routes = before @ rt # rest \<and> route_accepts F rt username rcpt
        \<and> list_all (\<lambda>r. \<not> route_accepts F r username rcpt) before))
   \<and> (Match F routes username rcpt = None \<longleftrightarrow>
        list_all (\<lambda>r. \<not> route_accepts F r username rcpt) routes)"
proof -
  have first: "find P xs = Some x \<longleftrightarrow> (\<exists>b r. xs = b @ x # r \<and> P x \<and> list_all (\<lambda>y. \<not> P y) b)" for P xs and x :: route
  proof (induction xs)
    case (Cons y ys)
    show ?case
    proof (cases "P y")
      case True
      then show ?thesis by (auto simp: Cons_eq_append_conv)
    next
      case False
      then have "(\<exists>b r. y # ys = b @ x # r \<and> P x \<and> list_all (\<lambda>y. \<not> P y) b) \<longleftrightarrow>
          (\<exists>b r. ys = b @ x # r \<and> P x \<and> list_all (\<lambda>y. \<not> P y) b)"
        by (auto simp: Cons_eq_append_conv) (metis append_Cons list.pred_inject(2))
      with Cons False show ?thesis by simp
    qed
  qed simp
  show ?thesis
    unfolding Match_find first by (auto simp: find_None_iff list_all_iff)
qed

text \<open>C25: routing ignores the case of a recipient, for every configuration: two recipients whose local
  parts, tags and domains agree up to case get the same route. It ignores the subaddress tag, whatever
  and whether there is one, as far as no route names an exact recipient address; a route that names one
  sees the tag, for it compares the whole address.\<close>

theorem Match_tag_case_insensitive:
  fixes l l' tag tag' d d' :: string
  assumes "EqualFold F l l'" "EqualFold F d d'"
    and "CHR ''+'' \<notin> set l" "CHR ''+'' \<notin> set l'" "CHR ''@'' \<notin> set d" "CHR ''@'' \<notin> set d'"
  defines "tagged \<equiv> l @ ''+'' @ tag @ ''@'' @ d" and "tagged' \<equiv> l' @ ''+'' @ tag' @ ''@'' @ d'"
    and "plain \<equiv> l @ ''@'' @ d" and "plain' \<equiv> l' @ ''@'' @ d'"
  shows "Match F routes u plain = Match F routes u plain'
    \<and> (EqualFold F tag tag' \<longrightarrow> Match F routes u tagged = Match F routes u tagged')
    \<and> ((\<forall>rt\<in>set routes. mt_rcpt (rt_match rt) = []) \<longrightarrow>
         Match F routes u tagged = Match F routes u plain' \<and> Match F routes u tagged = Match F routes u tagged')"
proof -
  have sep: "byte CHR ''@'' < 128" "byte CHR ''+'' < 128" by (simp_all add: byte_def)
  have parts: "split_addr plain = (l, d)" "split_addr plain' = (l', d')"
    "split_addr tagged = (l @ CHR ''+'' # tag, d)" "split_addr tagged' = (l' @ CHR ''+'' # tag', d')"
    using split_addr_at [OF assms(5), of l] split_addr_at [OF assms(6), of l']
      split_addr_at [OF assms(5), of "l @ CHR ''+'' # tag"]
      split_addr_at [OF assms(6), of "l' @ CHR ''+'' # tag'"]
    by (simp_all add: plain_def plain'_def tagged_def tagged'_def)
  note local = ef.eqf_cong [OF assms(1)] and domain = ef.eqf_cong [OF assms(2)]
  have accepts: "route_accepts F rt u addr = route_accepts F rt u addr'"
    if "{addr, addr'} \<subseteq> {plain, plain', tagged, tagged'}" "mt_rcpt (rt_match rt) = [] \<or> EqualFold F addr addr'"
    for rt addr addr'
    using that ef.eqf_cong [of F addr addr'] assms(3,4) parts local domain
    by (auto simp: route_accepts_def)
  have plain: "EqualFold F plain plain'"
    using EqualFold_separated [OF assms(1,2) sep(1)] by (simp add: plain_def plain'_def)
  have tagged: "EqualFold F tagged tagged'" if "EqualFold F tag tag'"
    using EqualFold_separated [OF assms(1) EqualFold_separated [OF that assms(2) sep(1)] sep(2)]
    by (simp add: tagged_def tagged'_def)
  show ?thesis
    unfolding Match_find
    by (intro conjI impI find_cong [OF refl] accepts) (use plain tagged in auto)
qed

definition example_route :: "string \<Rightarrow> string \<Rightarrow> match \<Rightarrow> route" where
  "example_route n u m =
     \<lparr>rt_name = n, rt_username = u, rt_password = ''pw'', rt_password_bcrypt = [], rt_match = m,
      rt_webhook = \<lparr>wh_url = ''http://h'', wh_method = ''POST'', wh_secret = [], wh_headers = []\<rparr>,
      rt_mode = [],
      rt_include = \<lparr>in_raw = False, in_attachments = True, in_max_attachment_bytes = 0\<rparr>\<rparr>"

theorem Match_tag_case_insensitive_witness:
  "Match id [example_route ''r'' ''u'' \<lparr>mt_rcpt = ''Alerts+Prod@H.Example'', mt_rcpt_domain = [],
       mt_rcpt_localpart = []\<rparr>] ''u'' ''alerts+PROD@h.Example''
   = Match id [example_route ''r'' ''u'' \<lparr>mt_rcpt = ''Alerts+Prod@H.Example'', mt_rcpt_domain = [],
       mt_rcpt_localpart = []\<rparr>] ''u'' ''ALERTS+prod@H.EXAMPLE''"
proof -
  have "EqualFold id ''alerts'' ''ALERTS''" "EqualFold id ''h.Example'' ''H.EXAMPLE''" "EqualFold id ''PROD'' ''prod''"
    by code_simp+
  with Match_tag_case_insensitive [of id "''alerts''" "''ALERTS''" "''h.Example''" "''H.EXAMPLE''" _ "''u''"
      "''PROD''" "''prod''"] show ?thesis by simp
qed

text \<open>\<open>split_addr\<close> cuts an address at its last at-sign and returns both sides byte for byte,
  so the domain is not lower-cased; an address without an at-sign is all local part, with an empty
  domain.\<close>

lemma split_addr_iff:
  "split_addr addr = (local, domain) \<longleftrightarrow>
     (if CHR ''@'' \<in> set addr
      then addr = local @ ''@'' @ domain \<and> CHR ''@'' \<notin> set domain
      else local = addr \<and> domain = [])"
proof (cases "CHR ''@'' \<in> set addr")
  case True
  then obtain a b where ab: "addr = a @ CHR ''@'' # b" "CHR ''@'' \<notin> set b"
    by (meson split_list_last)
  then have "split_addr addr = (a, b)" by simp
  with ab show ?thesis by (auto simp: append_eq_append_conv2 Cons_eq_append_conv append_eq_Cons_conv)
qed (auto simp: split_addr_no_at)

end
