(* ===== verification/Tables.thy ===== *)
theory Tables
  imports Go_Text "HOL-Library.Multiset"
begin

text \<open>
  The four SQLite tables of \<^verbatim>\<open>internal/store/store.go\<close> and the SQL statements run on them, each as
  a function on the whole database.

  A table is the list of its rows in rowid order. \<^verbatim>\<open>INTEGER PRIMARY KEY AUTOINCREMENT\<close> is a counter
  beside the table that only grows. \<^verbatim>\<open>INSERT OR REPLACE\<close> drops the row with the same key and
  appends the new one. \<^verbatim>\<open>ORDER BY k\<close> is the stable sort by \<open>k\<close>, and \<^verbatim>\<open>ORDER BY k DESC\<close> its
  reverse, the order in which SQLite walks the index on \<open>k\<close>; no property depends on the order of
  rows with equal keys. Times are integers, in milliseconds since the epoch.
\<close>

section \<open>Rows\<close>

record message_row =
  ms_id :: string
  ms_received_at :: int
  ms_from :: string
  ms_rcpt :: string
  ms_route :: string
  ms_subject :: string
  ms_size :: int
  ms_remote_addr :: string
  ms_username :: string
  ms_port :: "int option"
  ms_raw :: bytes

record delivery_row =
  dv_id :: int
  dv_message_id :: string
  dv_route :: string
  dv_attempt :: int
  dv_attempted_at :: int
  dv_status_code :: int
  dv_success :: int
  dv_error :: string

record queue_row =
  qu_id :: int
  qu_message_id :: string
  qu_route :: string
  qu_payload :: bytes
  qu_attempts :: int
  qu_next_attempt_at :: int
  qu_created_at :: int

record rejection_row =
  rj_id :: int
  rj_at :: int
  rj_stage :: string
  rj_code :: int
  rj_remote_addr :: string
  rj_username :: string
  rj_from :: string
  rj_rcpt :: string
  rj_reason :: string
  rj_port :: "int option"

record db =
  messages :: "message_row list"
  deliveries :: "delivery_row list"
  deliveries_seq :: int
  queue :: "queue_row list"
  queue_seq :: int
  rejections :: "rejection_row list"
  rejections_seq :: int

definition empty_db :: db where
  "empty_db = \<lparr>messages = [], deliveries = [], deliveries_seq = 0, queue = [], queue_seq = 0,
     rejections = [], rejections_seq = 0\<rparr>"

definition coalesce0 :: "int option \<Rightarrow> int" where
  "coalesce0 p = (case p of None \<Rightarrow> 0 | Some n \<Rightarrow> n)"

section \<open>Statements on the message log\<close>

definition sql_replace_message :: "message_row \<Rightarrow> db \<Rightarrow> unit \<times> db" where
  "sql_replace_message r d =
     ((), d\<lparr>messages := filter (\<lambda>x. ms_id x \<noteq> ms_id r) (messages d) @ [r]\<rparr>)"

definition sql_recent_messages :: "int \<Rightarrow> db \<Rightarrow> message_row list \<times> db" where
  "sql_recent_messages limit d =
     (sql_limit limit (rev (sort_key ms_received_at (messages d))), d)"

definition sql_message_by_id :: "string \<Rightarrow> db \<Rightarrow> message_row option \<times> db" where
  "sql_message_by_id i d = (find (\<lambda>r. ms_id r = i) (messages d), d)"

definition sql_delete_messages :: "string list \<Rightarrow> db \<Rightarrow> int \<times> db" where
  "sql_delete_messages ids d =
     (int (length (filter (\<lambda>r. ms_id r \<in> set ids) (messages d))),
      d\<lparr>messages := filter (\<lambda>r. ms_id r \<notin> set ids) (messages d)\<rparr>)"

definition sql_delete_all_messages :: "db \<Rightarrow> int \<times> db" where
  "sql_delete_all_messages d = (int (length (messages d)), d\<lparr>messages := []\<rparr>)"

section \<open>Statements on the delivery log\<close>

definition sql_insert_delivery :: "(int \<Rightarrow> delivery_row) \<Rightarrow> db \<Rightarrow> unit \<times> db" where
  "sql_insert_delivery row d =
     ((), d\<lparr>deliveries := deliveries d @ [row (deliveries_seq d + 1)],
            deliveries_seq := deliveries_seq d + 1\<rparr>)"

definition sql_delete_deliveries :: "string list \<Rightarrow> db \<Rightarrow> int \<times> db" where
  "sql_delete_deliveries ids d =
     (int (length (filter (\<lambda>r. dv_message_id r \<in> set ids) (deliveries d))),
      d\<lparr>deliveries := filter (\<lambda>r. dv_message_id r \<notin> set ids) (deliveries d)\<rparr>)"

definition sql_delete_all_deliveries :: "db \<Rightarrow> int \<times> db" where
  "sql_delete_all_deliveries d = (int (length (deliveries d)), d\<lparr>deliveries := []\<rparr>)"

section \<open>Statements on the rejection log\<close>

definition sql_insert_rejection :: "(int \<Rightarrow> rejection_row) \<Rightarrow> db \<Rightarrow> unit \<times> db" where
  "sql_insert_rejection row d =
     ((), d\<lparr>rejections := rejections d @ [row (rejections_seq d + 1)],
            rejections_seq := rejections_seq d + 1\<rparr>)"

definition sql_recent_rejections :: "int \<Rightarrow> db \<Rightarrow> rejection_row list \<times> db" where
  "sql_recent_rejections limit d = (sql_limit limit (rev (sort_key rj_at (rejections d))), d)"

definition sql_delete_rejections :: "int list \<Rightarrow> db \<Rightarrow> int \<times> db" where
  "sql_delete_rejections ids d =
     (int (length (filter (\<lambda>r. rj_id r \<in> set ids) (rejections d))),
      d\<lparr>rejections := filter (\<lambda>r. rj_id r \<notin> set ids) (rejections d)\<rparr>)"

definition sql_delete_all_rejections :: "db \<Rightarrow> int \<times> db" where
  "sql_delete_all_rejections d = (int (length (rejections d)), d\<lparr>rejections := []\<rparr>)"

definition sql_purge_rejections :: "int \<Rightarrow> db \<Rightarrow> int \<times> db" where
  "sql_purge_rejections cutoff d =
     (int (length (filter (\<lambda>r. rj_at r < cutoff) (rejections d))),
      d\<lparr>rejections := filter (\<lambda>r. \<not> rj_at r < cutoff) (rejections d)\<rparr>)"

section \<open>Statements on the delivery queue\<close>

text \<open>\<^verbatim>\<open>store.Job\<close>, what a claim returns of a queue row.\<close>

record job =
  jb_ID :: int
  jb_MessageID :: string
  jb_Route :: string
  jb_Payload :: bytes
  jb_Attempts :: int

definition job_of :: "queue_row \<Rightarrow> job" where
  "job_of r = \<lparr>jb_ID = qu_id r, jb_MessageID = qu_message_id r, jb_Route = qu_route r,
     jb_Payload = qu_payload r, jb_Attempts = qu_attempts r\<rparr>"

definition sql_insert_queue :: "string \<Rightarrow> string \<Rightarrow> bytes \<Rightarrow> int \<Rightarrow> db \<Rightarrow> unit \<times> db" where
  "sql_insert_queue message_id route payload now d =
     ((), d\<lparr>queue := queue d @ [\<lparr>qu_id = queue_seq d + 1, qu_message_id = message_id,
               qu_route = route, qu_payload = payload, qu_attempts = 0,
               qu_next_attempt_at = now, qu_created_at = now\<rparr>],
            queue_seq := queue_seq d + 1\<rparr>)"

definition sql_due :: "int \<Rightarrow> int \<Rightarrow> db \<Rightarrow> job list \<times> db" where
  "sql_due now limit d =
     (map job_of (sql_limit limit
        (sort_key qu_next_attempt_at (filter (\<lambda>r. qu_next_attempt_at r \<le> now) (queue d)))), d)"

definition sql_delete_job :: "int \<Rightarrow> db \<Rightarrow> unit \<times> db" where
  "sql_delete_job i d = ((), d\<lparr>queue := filter (\<lambda>r. qu_id r \<noteq> i) (queue d)\<rparr>)"

definition sql_update_job :: "int \<Rightarrow> int \<Rightarrow> int \<Rightarrow> db \<Rightarrow> unit \<times> db" where
  "sql_update_job i attempts next d =
     ((), d\<lparr>queue := map (\<lambda>r. if qu_id r = i
               then r\<lparr>qu_attempts := attempts, qu_next_attempt_at := next\<rparr> else r) (queue d)\<rparr>)"

lemmas sql_defs = sql_replace_message_def sql_recent_messages_def sql_message_by_id_def
  sql_delete_messages_def sql_delete_all_messages_def sql_insert_delivery_def
  sql_delete_deliveries_def sql_delete_all_deliveries_def sql_insert_rejection_def
  sql_recent_rejections_def sql_delete_rejections_def sql_delete_all_rejections_def
  sql_purge_rejections_def sql_insert_queue_def sql_due_def sql_delete_job_def sql_update_job_def

section \<open>Well-formed databases\<close>

text \<open>The key constraints of the schema: keys are distinct, and an autoincrement key was handed out by
  its counter.\<close>

definition db_ok :: "db \<Rightarrow> bool" where
  "db_ok d \<longleftrightarrow>
     distinct (map ms_id (messages d))
     \<and> distinct (map dv_id (deliveries d)) \<and> (\<forall>r\<in>set (deliveries d). dv_id r \<le> deliveries_seq d)
     \<and> distinct (map qu_id (queue d)) \<and> (\<forall>r\<in>set (queue d). qu_id r \<le> queue_seq d)
     \<and> distinct (map rj_id (rejections d)) \<and> (\<forall>r\<in>set (rejections d). rj_id r \<le> rejections_seq d)"

lemma db_ok_empty [simp]: "db_ok empty_db"
  by (simp add: db_ok_def empty_db_def)

lemma fresh_key: "\<forall>r\<in>set xs. k r \<le> n \<Longrightarrow> n + 1 \<notin> k ` set xs" for n :: int
  by fastforce

lemma db_ok_statements:
  assumes "db_ok d"
  shows "db_ok (snd (sql_replace_message m d))"
    and "db_ok (snd (sql_delete_messages ids d))"
    and "db_ok (snd (sql_delete_all_messages d))"
    and "(\<And>i. dv_id (dr i) = i) \<Longrightarrow> db_ok (snd (sql_insert_delivery dr d))"
    and "db_ok (snd (sql_delete_deliveries ids d))"
    and "db_ok (snd (sql_delete_all_deliveries d))"
    and "(\<And>i. rj_id (rr i) = i) \<Longrightarrow> db_ok (snd (sql_insert_rejection rr d))"
    and "db_ok (snd (sql_delete_rejections is d))"
    and "db_ok (snd (sql_delete_all_rejections d))"
    and "db_ok (snd (sql_purge_rejections t d))"
    and "db_ok (snd (sql_insert_queue mid rt p t d))"
    and "db_ok (snd (sql_delete_job j d))"
    and "db_ok (snd (sql_update_job j n t d))"
proof -
  show "db_ok (snd (sql_update_job j n t d))"
  proof -
    have "qu_id \<circ> (\<lambda>r :: queue_row. if qu_id r = j then r\<lparr>qu_attempts := n, qu_next_attempt_at := t\<rparr> else r)
        = qu_id" by auto
    with assms show ?thesis
      by (auto simp: db_ok_def sql_update_job_def)
  qed
qed (use assms in \<open>auto simp: db_ok_def sql_defs fresh_key intro: distinct_map_filter\<close>)

section \<open>Contract: rows deletable by key\<close>

text \<open>What the message log and the rejection log offer the web interface.\<close>

locale deletable_rows =
  fixes rows :: "'d \<Rightarrow> 'r list"
    and key :: "'r \<Rightarrow> 'k"
    and delete_keys :: "'k list \<Rightarrow> 'd \<Rightarrow> int \<times> 'd"
  assumes rows_deleted:
      "rows (snd (delete_keys ks d)) = filter (\<lambda>r. key r \<notin> set ks) (rows d)"
    and deleted_count:
      "fst (delete_keys ks d) = int (length (filter (\<lambda>r. key r \<in> set ks) (rows d)))"
begin

text \<open>The count reported is the number of rows that went away.\<close>

lemma count_is_difference:
  "fst (delete_keys ks d) = int (length (rows d)) - int (length (rows (snd (delete_keys ks d))))"
  using length_filter_complement [of "rows d" "\<lambda>r. key r \<in> set ks"]
  by (simp add: rows_deleted deleted_count)

lemma deleted_gone: "r \<in> set (rows (snd (delete_keys ks d))) \<longleftrightarrow> r \<in> set (rows d) \<and> key r \<notin> set ks"
  by (auto simp: rows_deleted)

lemma delete_again: "fst (delete_keys ks (snd (delete_keys ks d))) = 0"
  by (simp add: rows_deleted deleted_count)

lemma count_bound:
  assumes "distinct (map key (rows d))"
  shows "fst (delete_keys ks d) \<le> int (length ks)"
proof -
  let ?fs = "filter (\<lambda>r. key r \<in> set ks) (rows d)"
  have "card (key ` set ?fs) \<le> card (set ks)" by (intro card_mono) auto
  moreover have "card (key ` set ?fs) = length ?fs"
    using assms distinct_map_filter [OF assms] distinct_card [of "map key ?fs"] by simp
  moreover have "card (set ks) \<le> length ks" by (rule card_length)
  ultimately show ?thesis by (simp add: deleted_count)
qed

end

interpretation ml: deletable_rows messages ms_id sql_delete_messages
  by unfold_locales (simp_all add: sql_delete_messages_def)

interpretation dl: deletable_rows deliveries dv_message_id sql_delete_deliveries
  by unfold_locales (simp_all add: sql_delete_deliveries_def)

interpretation rl: deletable_rows rejections rj_id sql_delete_rejections
  by unfold_locales (simp_all add: sql_delete_rejections_def)

section \<open>Contract: newest-first listings\<close>

text \<open>What the two log views promise: the newest rows first, at most \<open>lim\<close> of them (all for a
  negative \<open>lim\<close>), and nothing newer than a listed row is left out.\<close>

locale newest_first =
  fixes rows :: "'d \<Rightarrow> 'r list"
    and stamp :: "'r \<Rightarrow> int"
    and listing :: "int \<Rightarrow> 'd \<Rightarrow> 'r list"
  assumes listing_eq: "listing lim d = sql_limit lim (rev (sort_key stamp (rows d)))"
begin

lemma listing_length:
  "length (listing lim d) = (if lim < 0 then length (rows d) else min (length (rows d)) (nat lim))"
  by (simp add: listing_eq sql_limit_def)

text \<open>Backwards, a listing is the end of the whole table in the order of the stamps.\<close>

lemma listing_tail:
  "\<exists>older. mset (older @ rev (listing lim d)) = mset (rows d)
     \<and> sorted (map stamp (older @ rev (listing lim d)))"
proof -
  obtain rest where "rev (sort_key stamp (rows d)) = listing lim d @ rest"
    using sql_limit_append_drop [of "rev (sort_key stamp (rows d))" lim] by (auto simp: listing_eq)
  then have "sort_key stamp (rows d) = rev rest @ rev (listing lim d)"
    by (metis rev_append rev_rev_ident)
  then show ?thesis by (metis mset_sort sorted_sort_key)
qed

end

interpretation mn: newest_first messages ms_received_at "\<lambda>lim d. fst (sql_recent_messages lim d)"
  by unfold_locales (simp add: sql_recent_messages_def)

interpretation rn: newest_first rejections rj_at "\<lambda>lim d. fst (sql_recent_rejections lim d)"
  by unfold_locales (simp add: sql_recent_rejections_def)

section \<open>Contract: the durable queue\<close>

text \<open>
  The abstract queue is a map from job ids to the job and the time it is due. The delivery worker and
  the SMTP session use the table only through these four operations.
\<close>

locale job_queue =
  fixes put :: "string \<Rightarrow> string \<Rightarrow> bytes \<Rightarrow> int \<Rightarrow> 'q \<Rightarrow> 'q"
    and due :: "int \<Rightarrow> int \<Rightarrow> 'q \<Rightarrow> job list"
    and remove_job :: "int \<Rightarrow> 'q \<Rightarrow> 'q"
    and postpone :: "int \<Rightarrow> int \<Rightarrow> int \<Rightarrow> 'q \<Rightarrow> 'q"
    and jobs :: "'q \<Rightarrow> int \<Rightarrow> (job \<times> int) option"
    and ok :: "'q \<Rightarrow> bool"
  assumes ok_put: "ok q \<Longrightarrow> ok (put m r p t q)"
    and ok_remove: "ok q \<Longrightarrow> ok (remove_job i q)"
    and ok_postpone: "ok q \<Longrightarrow> ok (postpone i n t q)"
    and jobs_put: "ok q \<Longrightarrow> \<exists>i. jobs q i = None \<and> jobs (put m r p t q) = (jobs q)(i \<mapsto>
        (\<lparr>jb_ID = i, jb_MessageID = m, jb_Route = r, jb_Payload = p, jb_Attempts = 0\<rparr>, t))"
    and jobs_remove: "ok q \<Longrightarrow> jobs (remove_job i q) = (jobs q)(i := None)"
    and jobs_postpone: "ok q \<Longrightarrow> jobs (postpone i n t q) =
        (jobs q)(i := map_option (\<lambda>(j, _). (j\<lparr>jb_Attempts := n\<rparr>, t)) (jobs q i))"
    and due_sound: "ok q \<Longrightarrow> j \<in> set (due now lim q) \<Longrightarrow> \<exists>t\<le>now. jobs q (jb_ID j) = Some (j, t)"
    and due_distinct: "ok q \<Longrightarrow> distinct (map jb_ID (due now lim q))"
    and due_complete: "ok q \<Longrightarrow> jobs q i = Some (j, t) \<Longrightarrow> t \<le> now \<Longrightarrow> j \<notin> set (due now lim q) \<Longrightarrow>
        0 \<le> lim \<and> length (due now lim q) = nat lim
        \<and> (\<forall>j'\<in>set (due now lim q). \<forall>t'. jobs q (jb_ID j') = Some (j', t') \<longrightarrow> t' \<le> t)"
begin

text \<open>A new job disturbs no other one.\<close>

lemma put_keeps: "ok q \<Longrightarrow> jobs q i = Some x \<Longrightarrow> jobs (put m r p t q) i = Some x"
  using jobs_put [of q m r p t] by auto

lemma remove_keeps: "ok q \<Longrightarrow> i \<noteq> i' \<Longrightarrow> jobs (remove_job i' q) i = jobs q i"
  by (simp add: jobs_remove)

lemma postpone_keeps: "ok q \<Longrightarrow> i \<noteq> i' \<Longrightarrow> jobs (postpone i' n t q) i = jobs q i"
  by (simp add: jobs_postpone)

text \<open>Removing a job is final: it is never due again.\<close>

lemma removed_not_due: "ok q \<Longrightarrow> j \<in> set (due now lim (remove_job i q)) \<Longrightarrow> jb_ID j \<noteq> i"
  using due_sound [OF ok_remove] by (fastforce simp: jobs_remove)

text \<open>A postponed job is not due before its time, and then with its new attempt count.\<close>

lemma postponed_due:
  "ok q \<Longrightarrow> jobs q i = Some (j, t0) \<Longrightarrow> j' \<in> set (due now lim (postpone i n t q)) \<Longrightarrow> jb_ID j' = i \<Longrightarrow>
     t \<le> now \<and> j' = j\<lparr>jb_Attempts := n\<rparr>"
  using due_sound [OF ok_postpone] by (fastforce simp: jobs_postpone)

text \<open>Without a limit every job whose time has come is claimed.\<close>

lemma due_unlimited: "ok q \<Longrightarrow> jobs q i = Some (j, t) \<Longrightarrow> t \<le> now \<Longrightarrow> lim < 0 \<Longrightarrow> j \<in> set (due now lim q)"
  using due_complete [of q i j t now lim] by auto

lemma put_due:
  assumes "ok q" "t \<le> now"
  shows "\<exists>j\<in>set (due now (-1) (put m r p t q)).
    jb_MessageID j = m \<and> jb_Route j = r \<and> jb_Payload j = p \<and> jb_Attempts j = 0"
proof -
  from jobs_put [OF assms(1)] obtain i where
    "jobs (put m r p t q) = (jobs q)(i \<mapsto>
       (\<lparr>jb_ID = i, jb_MessageID = m, jb_Route = r, jb_Payload = p, jb_Attempts = 0\<rparr>, t))" by blast
  then have "jobs (put m r p t q) i =
      Some (\<lparr>jb_ID = i, jb_MessageID = m, jb_Route = r, jb_Payload = p, jb_Attempts = 0\<rparr>, t)" by simp
  from due_unlimited [OF ok_put [OF assms(1)] this assms(2), of "-1"] show ?thesis by force
qed

end

text \<open>The queue table read as the abstract queue.\<close>

definition queue_map :: "db \<Rightarrow> int \<Rightarrow> (job \<times> int) option" where
  "queue_map d i =
     map_option (\<lambda>r. (job_of r, qu_next_attempt_at r)) (find (\<lambda>r. qu_id r = i) (queue d))"

lemma find_unique:
  "distinct (map k xs) \<Longrightarrow> find (\<lambda>x. k x = i) xs = Some x \<longleftrightarrow> x \<in> set xs \<and> k x = i"
  by (induction xs) force+

lemma queue_map_Some:
  "db_ok d \<Longrightarrow> queue_map d i = Some (j, t) \<longleftrightarrow>
     (\<exists>r\<in>set (queue d). qu_id r = i \<and> j = job_of r \<and> t = qu_next_attempt_at r)"
  by (auto simp: queue_map_def db_ok_def find_unique)

lemma queue_map_None: "queue_map d i = None \<longleftrightarrow> (\<forall>r\<in>set (queue d). qu_id r \<noteq> i)"
  by (auto simp: queue_map_def find_None_iff)

lemma job_of_sel [simp]: "jb_ID (job_of r) = qu_id r" "jb_Attempts (job_of r) = qu_attempts r"
  "jb_MessageID (job_of r) = qu_message_id r" "jb_Route (job_of r) = qu_route r"
  "jb_Payload (job_of r) = qu_payload r"
  by (simp_all add: job_of_def)

lemma find_append: "find P (xs @ ys) = (case find P xs of None \<Rightarrow> find P ys | Some x \<Rightarrow> Some x)"
  by (induction xs) auto

lemma find_filter_other: "find (\<lambda>r. k r = i) (filter (\<lambda>r. k r \<noteq> i') xs) =
    (if i = i' then None else find (\<lambda>r. k r = i) xs)"
  by (induction xs) auto

lemma find_map_update:
  "(\<And>r. k (f r) = k r) \<Longrightarrow> find (\<lambda>r. k r = i) (map (\<lambda>r. if k r = i' then f r else r) xs) =
    (if i = i' then map_option f (find (\<lambda>r. k r = i) xs) else find (\<lambda>r. k r = i) xs)"
  by (induction xs) auto

text \<open>A prefix of a sorted list: what was cut off is not smaller.\<close>

lemma sorted_prefix_le:
  "sorted (map k (xs @ ys)) \<Longrightarrow> x \<in> set xs \<Longrightarrow> y \<in> set ys \<Longrightarrow> k x \<le> k y"
  by (auto simp: sorted_append)

lemma sql_due_complete:
  assumes "r \<in> set (queue d)" "qu_next_attempt_at r \<le> now" "job_of r \<notin> set (fst (sql_due now lim d))"
  shows "0 \<le> lim \<and> length (fst (sql_due now lim d)) = nat lim
    \<and> (\<forall>r'\<in>set (sql_limit lim (sort_key qu_next_attempt_at
          (filter (\<lambda>r. qu_next_attempt_at r \<le> now) (queue d)))).
        qu_next_attempt_at r' \<le> qu_next_attempt_at r)"
proof -
  let ?all = "sort_key qu_next_attempt_at (filter (\<lambda>r. qu_next_attempt_at r \<le> now) (queue d))"
  obtain rest where all: "?all = sql_limit lim ?all @ rest"
    and rest: "rest = [] \<or> 0 \<le> lim \<and> length (sql_limit lim ?all) = nat lim"
    using sql_limit_append_drop [of ?all lim] by blast
  have "r \<in> set ?all" using assms by simp
  moreover have "r \<notin> set (sql_limit lim ?all)" using assms(3) by (auto simp: sql_due_def)
  ultimately have r: "r \<in> set rest" by (metis all Un_iff set_append)
  have "sorted (map qu_next_attempt_at (sql_limit lim ?all @ rest))"
    using all sorted_sort_key [of qu_next_attempt_at] by metis
  with r have "\<forall>r'\<in>set (sql_limit lim ?all). qu_next_attempt_at r' \<le> qu_next_attempt_at r"
    by (blast intro: sorted_prefix_le)
  with rest r show ?thesis by (auto simp: sql_due_def)
qed

interpretation jq: job_queue
  "\<lambda>m r p t d. snd (sql_insert_queue m r p t d)" "\<lambda>now lim d. fst (sql_due now lim d)"
  "\<lambda>i d. snd (sql_delete_job i d)" "\<lambda>i n t d. snd (sql_update_job i n t d)" queue_map db_ok
proof (unfold_locales, goal_cases)
  case (4 q m r p t)
  have "queue_map q (queue_seq q + 1) = None"
    using 4 by (fastforce simp: queue_map_None db_ok_def)
  then show ?case
    by (intro exI [of _ "queue_seq q + 1"])
      (auto simp: fun_eq_iff queue_map_def sql_insert_queue_def find_append job_of_def
        split: option.splits)
next
  case (5 q i)
  show ?case by (auto simp: fun_eq_iff queue_map_def sql_delete_job_def find_filter_other)
next
  case (6 q i n t)
  show ?case
    by (auto simp: fun_eq_iff queue_map_def sql_update_job_def find_map_update job_of_def
        option.map_comp comp_def)
next
  case (7 q j now lim)
  then obtain r where "r \<in> set (queue q)" "qu_next_attempt_at r \<le> now" "j = job_of r"
    using set_sql_limit_subset by (fastforce simp: sql_due_def)
  with 7(1) show ?case by (auto simp: queue_map_Some)
next
  case (8 q now lim)
  then have "distinct (map qu_id (filter (\<lambda>r. qu_next_attempt_at r \<le> now) (queue q)))"
    by (simp add: db_ok_def distinct_map_filter)
  then show ?case by (simp add: sql_due_def comp_def)
next
  case (9 q i j t now lim)
  then obtain r where r: "r \<in> set (queue q)" "j = job_of r" "t = qu_next_attempt_at r"
    by (auto simp: queue_map_Some)
  with 9 have c: "0 \<le> lim \<and> length (fst (sql_due now lim q)) = nat lim"
    "\<forall>r'\<in>set (sql_limit lim (sort_key qu_next_attempt_at
          (filter (\<lambda>r. qu_next_attempt_at r \<le> now) (queue q)))).
        qu_next_attempt_at r' \<le> t"
    using sql_due_complete [of r q now lim] by auto
  have "t' \<le> t" if "j' \<in> set (fst (sql_due now lim q))" "queue_map q (jb_ID j') = Some (j', t')" for j' t'
  proof -
    from that(1) obtain r' where r': "j' = job_of r'" "r' \<in> set (sql_limit lim
        (sort_key qu_next_attempt_at (filter (\<lambda>r. qu_next_attempt_at r \<le> now) (queue q))))"
      by (auto simp: sql_due_def)
    then have "r' \<in> set (queue q)" using set_sql_limit_subset by fastforce
    then have "queue_map q (qu_id r') = Some (job_of r', qu_next_attempt_at r')"
      using 9(1) by (auto simp: queue_map_Some)
    with that(2) r' c(2) show ?thesis by auto
  qed
  with c(1) show ?case by blast
qed (auto intro: db_ok_statements)

end
