(* ===== verification/Mail.thy ===== *)
theory Mail
  imports Go_Text "HOL-Library.AList"
begin

text \<open>
  \<^verbatim>\<open>internal/mail/message.go\<close>: from the SMTP envelope and the raw DATA to the structured message.

  The MIME library is a third-party package. What it makes of the raw bytes is a parameter \<open>read\<close>:
  nothing when \<^verbatim>\<open>message.Read\<close> reports an error, else the header fields in order and the entity
  tree. A \<open>Multipart\<close> holds the parts \<^verbatim>\<open>NextPart\<close> returned before its end or its first error,
  both of which leave the loop of \<^verbatim>\<open>walk\<close>. A Go map is an association list with distinct keys.
\<close>

section \<open>Entities and messages\<close>

type_synonym strmap = "(string \<times> string) list"

definition map_get :: "strmap \<Rightarrow> string \<Rightarrow> string" where
  "map_get m k = (case map_of m k of None \<Rightarrow> [] | Some v \<Rightarrow> v)"

text \<open>\<open>lf_disposition\<close> is \<open>None\<close> when \<^verbatim>\<open>ContentDisposition\<close> returns an error; \<open>lf_body\<close> is what
  \<^verbatim>\<open>io.ReadAll\<close> returned, its error being dropped.\<close>

record leaf =
  lf_kind :: string
  lf_params :: strmap
  lf_disposition :: "(string \<times> strmap) option"
  lf_body :: bytes

datatype entity = Leaf leaf | Multipart "entity list"

text \<open>\<open>hf_text\<close> is \<open>None\<close> when decoding the field's text fails.\<close>

record header_field =
  hf_key :: string
  hf_text :: "string option"
  hf_value :: string

type_synonym reader = "bytes \<Rightarrow> (header_field list \<times> entity) option"

record attachment =
  at_filename :: string
  at_content_type :: string
  at_content :: bytes

record message =
  mg_from :: string
  mg_rcpt :: "string list"
  mg_subject :: string
  mg_headers :: strmap
  mg_text :: string
  mg_html :: string
  mg_attachments :: "attachment list"
  mg_raw :: bytes

section \<open>Operations\<close>

definition parseDisposition :: "leaf \<Rightarrow> string \<times> strmap" where
  "parseDisposition l = (case lf_disposition l of None \<Rightarrow> ([], []) | Some dp \<Rightarrow> dp)"

definition leaf_filename :: "leaf \<Rightarrow> string" where
  "leaf_filename l =
     (let filename = map_get (snd (parseDisposition l)) ''filename'' in
      if filename = [] then map_get (lf_params l) ''name'' else filename)"

definition leaf_attachment :: "leaf \<Rightarrow> attachment" where
  "leaf_attachment l =
     \<lparr>at_filename = leaf_filename l, at_content_type = lf_kind l, at_content = lf_body l\<rparr>"

definition isAttachment :: "leaf \<Rightarrow> bool" where
  "isAttachment l \<longleftrightarrow> fst (parseDisposition l) = ''attachment''
     \<or> (leaf_filename l \<noteq> [] \<and> \<not> HasPrefix (lf_kind l) ''text/'')"

definition walk_leaf :: "leaf \<Rightarrow> message \<Rightarrow> message" where
  "walk_leaf l m =
     (if isAttachment l then m\<lparr>mg_attachments := mg_attachments m @ [leaf_attachment l]\<rparr>
      else if lf_kind l = ''text/html'' then
        (if mg_html m = [] then m\<lparr>mg_html := lf_body l\<rparr> else m)
      else if lf_kind l = ''text/plain'' \<or> lf_kind l = [] then
        (if mg_text m = [] then m\<lparr>mg_text := lf_body l\<rparr> else m)
      else if leaf_filename l \<noteq> []
      then m\<lparr>mg_attachments := mg_attachments m @ [leaf_attachment l]\<rparr>
      else m)"

fun walk :: "entity \<Rightarrow> message \<Rightarrow> message" where
  "walk (Leaf l) m = walk_leaf l m"
| "walk (Multipart parts) m = fold walk parts m"

definition field_text :: "header_field \<Rightarrow> string" where
  "field_text f = (case hf_text f of None \<Rightarrow> hf_value f | Some v \<Rightarrow> v)"

definition flatten_headers :: "header_field list \<Rightarrow> strmap" where
  "flatten_headers fs = fold (\<lambda>f hs. AList.update (hf_key f) (field_text f) hs) fs []"

definition Parse :: "reader \<Rightarrow> string \<Rightarrow> string list \<Rightarrow> bytes \<Rightarrow> message" where
  "Parse read from rcpt raw =
     (let m = \<lparr>mg_from = from, mg_rcpt = rcpt, mg_subject = [], mg_headers = [], mg_text = [],
               mg_html = [], mg_attachments = [], mg_raw = raw\<rparr>
      in case read raw of
           None \<Rightarrow> m
         | Some (fs, e) \<Rightarrow>
             let hs = flatten_headers fs
             in walk e (m\<lparr>mg_headers := hs, mg_subject := map_get hs ''Subject''\<rparr>))"

text \<open>\<^verbatim>\<open>AddressList\<close>: \<open>parse\<close> is the third-party address parser, \<open>None\<close> its error.\<close>

definition AddressList :: "(string \<Rightarrow> string list option) \<Rightarrow> string \<Rightarrow> string list" where
  "AddressList parse header = (case parse header of None \<Rightarrow> [] | Some addrs \<Rightarrow> addrs)"

section \<open>The walk as one pass over the leaves\<close>

fun leaves :: "entity \<Rightarrow> leaf list" where
  "leaves (Leaf l) = [l]"
| "leaves (Multipart parts) = concat (map leaves parts)"

lemma walk_leaves: "walk e m = fold walk_leaf (leaves e) m"
proof (induction e arbitrary: m)
  case (Multipart parts)
  then have "\<forall>e\<in>set parts. \<forall>m. walk e m = fold walk_leaf (leaves e) m" by blast
  then have "fold walk parts m = fold walk_leaf (concat (map leaves parts)) m" for m
    by (induction parts arbitrary: m) auto
  then show ?case by simp
qed simp

text \<open>Which leaf goes where, and the first non-empty body of a list of leaves.\<close>

definition kept_as_attachment :: "leaf \<Rightarrow> bool" where
  "kept_as_attachment l \<longleftrightarrow> isAttachment l
     \<or> (lf_kind l \<notin> {''text/html'', ''text/plain'', []} \<and> leaf_filename l \<noteq> [])"

definition is_html :: "leaf \<Rightarrow> bool" where
  "is_html l \<longleftrightarrow> \<not> isAttachment l \<and> lf_kind l = ''text/html''"

definition is_text :: "leaf \<Rightarrow> bool" where
  "is_text l \<longleftrightarrow> \<not> isAttachment l \<and> lf_kind l \<in> {''text/plain'', []}"

definition first_body :: "string \<Rightarrow> (leaf \<Rightarrow> bool) \<Rightarrow> leaf list \<Rightarrow> string" where
  "first_body start P ls =
     (if start \<noteq> [] then start
      else case find (\<lambda>l. P l \<and> lf_body l \<noteq> []) ls of None \<Rightarrow> [] | Some l \<Rightarrow> lf_body l)"

lemma first_body_Cons:
  "first_body start P (l # ls) = first_body (if P l \<and> start = [] then lf_body l else start) P ls"
  by (auto simp: first_body_def)

lemma walk_leaf_eq:
  "walk_leaf l m = m\<lparr>mg_html := if is_html l \<and> mg_html m = [] then lf_body l else mg_html m,
     mg_text := if is_text l \<and> mg_text m = [] then lf_body l else mg_text m,
     mg_attachments := mg_attachments m @ (if kept_as_attachment l then [leaf_attachment l] else [])\<rparr>"
  by (auto simp: walk_leaf_def is_html_def is_text_def kept_as_attachment_def)

lemma walk_leaves_eq:
  "fold walk_leaf ls m = m\<lparr>mg_html := first_body (mg_html m) is_html ls,
     mg_text := first_body (mg_text m) is_text ls,
     mg_attachments := mg_attachments m @ map leaf_attachment (filter kept_as_attachment ls)\<rparr>"
proof (induction ls arbitrary: m)
  case Nil
  then show ?case by (simp add: first_body_def)
next
  case (Cons l ls)
  have "fold walk_leaf (l # ls) m = fold walk_leaf ls (walk_leaf l m)" by simp
  also have "\<dots> = (walk_leaf l m)\<lparr>mg_html := first_body (mg_html (walk_leaf l m)) is_html ls,
     mg_text := first_body (mg_text (walk_leaf l m)) is_text ls,
     mg_attachments := mg_attachments (walk_leaf l m)
       @ map leaf_attachment (filter kept_as_attachment ls)\<rparr>"
    by (rule Cons.IH)
  also have "\<dots> = m\<lparr>mg_html := first_body (mg_html m) is_html (l # ls),
     mg_text := first_body (mg_text m) is_text (l # ls),
     mg_attachments := mg_attachments m @ map leaf_attachment (filter kept_as_attachment (l # ls))\<rparr>"
    by (simp add: walk_leaf_eq first_body_Cons)
  finally show ?case .
qed

lemma flatten_headers_map:
  "map_of (flatten_headers fs) k = map_option field_text (find (\<lambda>f. hf_key f = k) (rev fs))"
proof -
  have "map_of (fold (\<lambda>f hs. AList.update (hf_key f) (field_text f) hs) fs hs0) k =
      (case find (\<lambda>f. hf_key f = k) (rev fs) of None \<Rightarrow> map_of hs0 k | Some f \<Rightarrow> Some (field_text f))" for hs0
  proof (induction fs rule: rev_induct)
    case (snoc f fs)
    then show ?case by (simp add: update_conv)
  qed simp
  from this [of "[]"] show ?thesis by (simp add: flatten_headers_def split: option.splits)
qed

lemma distinct_flatten_headers: "distinct (map fst (flatten_headers fs))"
proof -
  have "distinct (map fst hs0) \<Longrightarrow>
      distinct (map fst (fold (\<lambda>f hs. AList.update (hf_key f) (field_text f) hs) fs hs0))" for hs0
    by (induction fs arbitrary: hs0) (auto intro: distinct_update)
  then show ?thesis by (simp add: flatten_headers_def)
qed

section \<open>Properties\<close>

text \<open>C37: parsing never loses the message: whatever the MIME library makes of the bytes, the result
  carries the envelope and the raw bytes unchanged; the subject is the text of the last
  \<^verbatim>\<open>Subject\<close> field, and when the library fails everything parsed is empty.\<close>

theorem Parse_keeps_message:
  "mg_from (Parse read from rcpt raw) = from \<and> mg_rcpt (Parse read from rcpt raw) = rcpt
   \<and> mg_raw (Parse read from rcpt raw) = raw
   \<and> mg_subject (Parse read from rcpt raw) =
       (case read raw of None \<Rightarrow> []
        | Some (fs, e) \<Rightarrow> (case find (\<lambda>f. hf_key f = ''Subject'') (rev fs) of
            None \<Rightarrow> [] | Some f \<Rightarrow> field_text f))
   \<and> (read raw = None \<longrightarrow> mg_headers (Parse read from rcpt raw) = []
        \<and> mg_text (Parse read from rcpt raw) = [] \<and> mg_html (Parse read from rcpt raw) = []
        \<and> mg_attachments (Parse read from rcpt raw) = [])"
  by (auto simp: Parse_def Let_def walk_leaves walk_leaves_eq map_get_def flatten_headers_map
      split: option.splits)

theorem Parse_keeps_message_witness:
  "mg_raw (Parse (\<lambda>_. None) ''a@b'' [''x@y''] ''junk'') = ''junk''
   \<and> mg_attachments (Parse (\<lambda>_. None) ''a@b'' [''x@y''] ''junk'') = []"
  using Parse_keeps_message [of "\<lambda>_. None" "''a@b''" "[''x@y'']" "''junk''"] by simp

text \<open>C38: the recursive descent through the MIME tree is one pass over its leaves in document
  order: the attachments are exactly the attachment leaves, in order, and the text and the HTML body
  are the first non-empty body of their kind.\<close>

theorem walk_flat:
  "walk e m = m\<lparr>mg_html := first_body (mg_html m) is_html (leaves e),
     mg_text := first_body (mg_text m) is_text (leaves e),
     mg_attachments := mg_attachments m @ map leaf_attachment (filter kept_as_attachment (leaves e))\<rparr>"
  by (simp add: walk_leaves walk_leaves_eq)

text \<open>A part with a filename is not always kept as an attachment: a \<^verbatim>\<open>text/plain\<close> or
  \<^verbatim>\<open>text/html\<close> part whose disposition is not \<^verbatim>\<open>attachment\<close> never is, named or not, and
  once the body of its kind is set such a part leaves no trace in the message.\<close>

lemma named_text_part_dropped:
  assumes "lf_kind l \<in> {''text/plain'', ''text/html''}"
    and "fst (parseDisposition l) \<noteq> ''attachment''"
  shows "mg_attachments (walk (Leaf l) m) = mg_attachments m
    \<and> (mg_text m \<noteq> [] \<and> mg_html m \<noteq> [] \<longrightarrow> walk (Leaf l) m = m)"
proof -
  have "\<not> isAttachment l" using assms by (auto simp: isAttachment_def HasPrefix_def)
  with assms(1) show ?thesis by (auto simp: walk_leaf_def)
qed

definition named_text_leaf :: leaf where
  "named_text_leaf = \<lparr>lf_kind = ''text/plain'', lf_params = [(''name'', ''notes.txt'')],
     lf_disposition = Some (''inline'', [(''filename'', ''notes.txt'')]), lf_body = ''notes''\<rparr>"

end
