(* ===== verification/Go_Crypto.thy ===== *)
theory Go_Crypto
  imports Go_Text
begin

unbundle bit_operations_syntax

text \<open>
  Go's \<^verbatim>\<open>crypto/sha256\<close>, \<^verbatim>\<open>crypto/hmac\<close> and \<^verbatim>\<open>crypto/subtle.ConstantTimeCompare\<close> on byte strings,
  after FIPS 180-4 and RFC 2104. bcrypt is a third-party package and stays a parameter of the model.
\<close>

type_synonym u32 = "32 word"

definition sha_k :: "u32 list" where
  "sha_k =
    [1116352408, 1899447441, 3049323471, 3921009573, 961987163, 1508970993, 2453635748, 2870763221,
     3624381080, 310598401, 607225278, 1426881987, 1925078388, 2162078206, 2614888103, 3248222580,
     3835390401, 4022224774, 264347078, 604807628, 770255983, 1249150122, 1555081692, 1996064986,
     2554220882, 2821834349, 2952996808, 3210313671, 3336571891, 3584528711, 113926993, 338241895,
     666307205, 773529912, 1294757372, 1396182291, 1695183700, 1986661051, 2177026350, 2456956037,
     2730485921, 2820302411, 3259730800, 3345764771, 3516065817, 3600352804, 4094571909, 275423344,
     430227734, 506948616, 659060556, 883997877, 958139571, 1322822218, 1537002063, 1747873779,
     1955562222, 2024104815, 2227730452, 2361852424, 2428436474, 2756734187, 3204031479, 3329325298]"

definition sha_init :: "u32 list" where
  "sha_init = [1779033703, 3144134277, 1013904242, 2773480762, 1359893119, 2600822924, 528734635, 1541459225]"

definition small_sigma0 :: "u32 \<Rightarrow> u32" where
  "small_sigma0 x = word_rotr 7 x XOR word_rotr 18 x XOR drop_bit 3 x"

definition small_sigma1 :: "u32 \<Rightarrow> u32" where
  "small_sigma1 x = word_rotr 17 x XOR word_rotr 19 x XOR drop_bit 10 x"

definition big_sigma0 :: "u32 \<Rightarrow> u32" where
  "big_sigma0 x = word_rotr 2 x XOR word_rotr 13 x XOR word_rotr 22 x"

definition big_sigma1 :: "u32 \<Rightarrow> u32" where
  "big_sigma1 x = word_rotr 6 x XOR word_rotr 11 x XOR word_rotr 25 x"

definition sha_schedule :: "u32 list \<Rightarrow> u32 list" where
  "sha_schedule block =
     foldl (\<lambda>ws i. ws @ [small_sigma1 (ws ! (i - 2)) + ws ! (i - 7) + small_sigma0 (ws ! (i - 15))
                         + ws ! (i - 16)]) block [16 ..< 64]"

fun sha_round :: "u32 list \<Rightarrow> u32 \<times> u32 \<Rightarrow> u32 list" where
  "sha_round [a, b, c, d, e, f, g, h] (k, w) =
     (let t1 = h + big_sigma1 e + ((e AND f) XOR (NOT e AND g)) + k + w;
          t2 = big_sigma0 a + ((a AND b) XOR (a AND c) XOR (b AND c))
      in [t1 + t2, a, b, c, d + t1, e, f, g])"
| "sha_round s _ = s"

definition sha_compress :: "u32 list \<Rightarrow> u32 list \<Rightarrow> u32 list" where
  "sha_compress hs block =
     map2 (\<lambda>x y. x + y) hs (foldl sha_round hs (zip sha_k (sha_schedule block)))"

definition be_bytes :: "nat \<Rightarrow> nat \<Rightarrow> nat list" where
  "be_bytes n v = map (\<lambda>i. v div 256 ^ (n - 1 - i) mod 256) [0 ..< n]"

definition sha_pad :: "bytes \<Rightarrow> nat list" where
  "sha_pad m =
     (let z = (119 - length m mod 64) mod 64
      in map byte m @ [0x80] @ replicate z 0 @ be_bytes 8 (8 * length m))"

fun words_of :: "nat list \<Rightarrow> u32 list" where
  "words_of (a # b # c # d # s) =
     word_of_nat (((a * 256 + b) * 256 + c) * 256 + d) # words_of s"
| "words_of _ = []"

fun sha_blocks :: "u32 list \<Rightarrow> u32 list \<Rightarrow> u32 list" where
  "sha_blocks hs [] = hs"
| "sha_blocks hs (w # ws) = sha_blocks (sha_compress hs (take 16 (w # ws))) (drop 15 ws)"

definition sha256 :: "bytes \<Rightarrow> bytes" where
  "sha256 m = map char_of
     (concat (map (\<lambda>w. be_bytes 4 (unat w)) (sha_blocks sha_init (words_of (sha_pad m)))))"

definition xor_pad :: "nat \<Rightarrow> bytes \<Rightarrow> bytes" where
  "xor_pad p key = map (\<lambda>c. char_of (byte c XOR p)) (key @ replicate (64 - length key) nul)"

definition hmac_sha256 :: "bytes \<Rightarrow> bytes \<Rightarrow> bytes" where
  "hmac_sha256 key m =
     (let k = (if 64 < length key then sha256 key else key)
      in sha256 (xor_pad 0x5c k @ sha256 (xor_pad 0x36 k @ m)))"

text \<open>\<^verbatim>\<open>subtle.ConstantTimeCompare\<close>: 1 exactly for equal contents.\<close>

definition ConstantTimeCompare :: "bytes \<Rightarrow> bytes \<Rightarrow> int" where
  "ConstantTimeCompare x y = (if x = y then 1 else 0)"

lemma be_bytes_length [simp]: "length (be_bytes n v) = n"
  by (simp add: be_bytes_def)

lemma sha_round_length: "length s = 8 \<Longrightarrow> length (sha_round s kw) = 8"
  by (cases "(s, kw)" rule: sha_round.cases) (auto simp: Let_def)

lemma sha_compress_length: "length hs = 8 \<Longrightarrow> length (sha_compress hs block) = 8"
proof -
  assume h: "length hs = 8"
  have "length s = 8 \<Longrightarrow> length (foldl sha_round s kws) = 8" for s kws
    by (induction kws arbitrary: s) (auto simp: sha_round_length)
  with h show ?thesis by (simp add: sha_compress_def)
qed

text \<open>A digest has 32 bytes, so a signature has 64 hexadecimal digits.\<close>

lemma sha256_length: "length (sha256 m) = 32"
proof -
  have blocks: "length hs = 8 \<Longrightarrow> length (sha_blocks hs ws) = 8" for hs ws
    by (induction hs ws rule: sha_blocks.induct) (auto simp: sha_compress_length)
  have "length (concat (map (\<lambda>w. be_bytes 4 (unat w)) ws)) = 4 * length ws" for ws :: "u32 list"
    by (induction ws) auto
  with blocks [of sha_init] show ?thesis by (simp add: sha256_def sha_init_def)
qed

lemma length_hex_encode [simp]: "length (hex_encode s) = 2 * length s"
  by (induction s) (auto simp: hex_encode_def)

lemma hmac_length [simp]: "length (hmac_sha256 k m) = 32"
  by (simp add: hmac_sha256_def sha256_length Let_def)

end
