(* ===== verification/Runtime.thy ===== *)
theory Runtime
  imports Tables Mail Config Go_Crypto
begin

text \<open>
  The world the program runs in. Everything the program asks of its surroundings is answered by an
  environment \<open>E\<close>, a record of functions fixed for a run: the clock, the message id generator, the
  success of each SQL statement, the outcome of each HTTP request, and the results of third-party
  packages. Where the answer can differ from call to call it is indexed by the number of the call,
  and the state counts the calls; nothing is assumed about the answers, so a theorem about all \<open>E\<close>
  holds for every clock, every failing disk and every webhook.

  The state is the database, the counters and the HTTP requests sent so far with their outcomes.
  Log lines on standard error are not part of it.
\<close>

section \<open>The environment\<close>

record http_request =
  hq_method :: string
  hq_url :: string
  hq_headers :: strmap
  hq_body :: bytes

text \<open>The SMTP library's error type: reply code, enhanced code and text.\<close>

record smtp_error =
  se_Code :: int
  se_EnhancedCode :: "int \<times> int \<times> int"
  se_Message :: string

datatype http_outcome = Responded int | TransportError string

text \<open>
  \<^item> \<open>env_now n\<close>: the result of the \<open>n\<close>-th \<^verbatim>\<open>time.Now\<close>, in nanoseconds since the epoch;
  \<^item> \<open>env_uuid n\<close>: the \<open>n\<close>-th message id;
  \<^item> \<open>env_db_error n\<close>: the error of the \<open>n\<close>-th SQL statement, if it fails, in which case it has no
    effect;
  \<^item> \<open>env_request_error\<close>: whether \<^verbatim>\<open>http.NewRequest\<close> refuses a method and URL;
  \<^item> \<open>env_client_do n\<close>: what comes of the \<open>n\<close>-th request sent;
  \<^item> \<open>env_bcrypt\<close>: whether a bcrypt hash matches a password;
  \<^item> \<open>env_fold\<close>: the Unicode folding table of \<^theory_text>\<open>Go_Text\<close>;
  \<^item> \<open>env_time_json\<close>: the text of a time in JSON, or the error for a year out of range;
  \<^item> \<open>env_add_days\<close>: \<^verbatim>\<open>Time.AddDate(0, 0, n)\<close>, which depends on the time zone;
  \<^item> \<open>env_read\<close>: the MIME library of \<^theory_text>\<open>Mail\<close>;
  \<^item> \<open>env_getenv\<close>: \<^verbatim>\<open>os.Getenv\<close>;
  \<^item> \<open>env_quote\<close>: \<^verbatim>\<open>strconv.Quote\<close>, which depends on the Unicode table of printable characters;
  \<^item> \<open>env_auth_unsupported\<close>: \<^verbatim>\<open>smtp.ErrAuthUnsupported\<close>, a reply the SMTP library defines.
\<close>

record env =
  env_now :: "nat \<Rightarrow> int"
  env_uuid :: "nat \<Rightarrow> string"
  env_db_error :: "nat \<Rightarrow> string option"
  env_request_error :: "string \<Rightarrow> string \<Rightarrow> string option"
  env_client_do :: "nat \<Rightarrow> http_request \<Rightarrow> http_outcome"
  env_bcrypt :: "string \<Rightarrow> string \<Rightarrow> bool"
  env_fold :: "nat \<Rightarrow> nat"
  env_time_json :: "int \<Rightarrow> string + string"
  env_add_days :: "int \<Rightarrow> int \<Rightarrow> int"
  env_read :: reader
  env_getenv :: "string \<Rightarrow> string"
  env_quote :: "string \<Rightarrow> string"
  env_auth_unsupported :: smtp_error

record world =
  n_now :: nat
  n_uuid :: nat
  n_stmt :: nat
  n_http :: nat
  http_sent :: "(http_request \<times> http_outcome) list"
  db_of :: db

definition initial_world :: world where
  "initial_world = \<lparr>n_now = 0, n_uuid = 0, n_stmt = 0, n_http = 0, http_sent = [], db_of = empty_db\<rparr>"

section \<open>The calls\<close>

definition time_Now :: "env \<Rightarrow> (world, int) state" where
  "time_Now E = State (\<lambda>w. (env_now E (n_now w), w\<lparr>n_now := Suc (n_now w)\<rparr>))"

definition UnixMilli :: "int \<Rightarrow> int" where
  "UnixMilli t = t div 1000000"

definition new_uuid :: "env \<Rightarrow> (world, string) state" where
  "new_uuid E = State (\<lambda>w. (env_uuid E (n_uuid w), w\<lparr>n_uuid := Suc (n_uuid w)\<rparr>))"

text \<open>One SQL statement: it fails without an effect, or it runs.\<close>

definition db_exec :: "env \<Rightarrow> (db \<Rightarrow> 'a \<times> db) \<Rightarrow> (world, string + 'a) state" where
  "db_exec E stmt = State (\<lambda>w.
     let w1 = w\<lparr>n_stmt := Suc (n_stmt w)\<rparr> in
     case env_db_error E (n_stmt w) of
       Some e \<Rightarrow> (Inl e, w1)
     | None \<Rightarrow> (let (r, d) = stmt (db_of w) in (Inr r, w1\<lparr>db_of := d\<rparr>)))"

definition client_Do :: "env \<Rightarrow> http_request \<Rightarrow> (world, http_outcome) state" where
  "client_Do E req = State (\<lambda>w.
     let r = env_client_do E (n_http w) req
     in (r, w\<lparr>n_http := Suc (n_http w), http_sent := http_sent w @ [(req, r)]\<rparr>))"

text \<open>Whether the next statement runs.\<close>

definition next_stmt_ok :: "env \<Rightarrow> world \<Rightarrow> bool" where
  "next_stmt_ok E w \<longleftrightarrow> env_db_error E (n_stmt w) = None"

definition db_reliable :: "env \<Rightarrow> bool" where
  "db_reliable E \<longleftrightarrow> (\<forall>n. env_db_error E n = None)"

lemma result_time_Now [run_simps]: "result (time_Now E) w = env_now E (n_now w)"
  and after_time_Now [run_simps]: "after (time_Now E) w = w\<lparr>n_now := Suc (n_now w)\<rparr>"
  by (simp_all add: time_Now_def)

lemma result_new_uuid [run_simps]: "result (new_uuid E) w = env_uuid E (n_uuid w)"
  and after_new_uuid [run_simps]: "after (new_uuid E) w = w\<lparr>n_uuid := Suc (n_uuid w)\<rparr>"
  by (simp_all add: new_uuid_def)

lemma result_db_exec:
  "result (db_exec E stmt) w =
     (case env_db_error E (n_stmt w) of Some e \<Rightarrow> Inl e | None \<Rightarrow> Inr (fst (stmt (db_of w))))"
  by (simp add: db_exec_def Let_def case_prod_beta split: option.splits)

lemma after_db_exec:
  "after (db_exec E stmt) w =
     w\<lparr>n_stmt := Suc (n_stmt w),
       db_of := (if next_stmt_ok E w then snd (stmt (db_of w)) else db_of w)\<rparr>"
  by (simp add: db_exec_def next_stmt_ok_def Let_def case_prod_beta split: option.splits)

lemma db_exec_ok:
  "result (db_exec E stmt) w = Inr r \<longleftrightarrow> next_stmt_ok E w \<and> r = fst (stmt (db_of w))"
  by (auto simp: result_db_exec next_stmt_ok_def split: option.splits)

lemma db_exec_Inl: "isl (result (db_exec E stmt) w) \<longleftrightarrow> \<not> next_stmt_ok E w"
  by (simp add: result_db_exec next_stmt_ok_def split: option.splits)

lemma result_client_Do [run_simps]: "result (client_Do E req) w = env_client_do E (n_http w) req"
  and after_client_Do [run_simps]:
    "after (client_Do E req) w =
       w\<lparr>n_http := Suc (n_http w), http_sent := http_sent w @ [(req, env_client_do E (n_http w) req)]\<rparr>"
  by (simp_all add: client_Do_def Let_def)

lemma next_stmt_ok_reliable [simp]: "db_reliable E \<Longrightarrow> next_stmt_ok E w"
  by (simp add: db_reliable_def next_stmt_ok_def)

section \<open>Frame rules\<close>

lemma keeps_time_Now [intro!]:
  "(\<And>w n. V (w\<lparr>n_now := n\<rparr>) = V w) \<Longrightarrow> keeps V (time_Now E)"
  by (simp add: keeps_def run_simps)

lemma keeps_new_uuid [intro!]:
  "(\<And>w n. V (w\<lparr>n_uuid := n\<rparr>) = V w) \<Longrightarrow> keeps V (new_uuid E)"
  by (simp add: keeps_def run_simps)

lemma keeps_db_exec [intro]:
  "(\<And>w n. V (w\<lparr>n_stmt := n, db_of := snd (stmt (db_of w))\<rparr>) = V w) \<Longrightarrow>
   (\<And>w n. V (w\<lparr>n_stmt := n\<rparr>) = V w) \<Longrightarrow> keeps V (db_exec E stmt)"
  by (simp add: keeps_def after_db_exec)

lemma keeps_client_Do [intro!]:
  "(\<And>w n l. V (w\<lparr>n_http := n, http_sent := l\<rparr>) = V w) \<Longrightarrow> keeps V (client_Do E req)"
  by (simp add: keeps_def run_simps)

text \<open>Invariants of the database alone.\<close>

lemma preserves_keeps: "keeps V m \<Longrightarrow> preserves (\<lambda>w. P (V w)) m"
  by (simp add: preserves_def keeps_def)

end
