(* ===== verification/Payload.thy ===== *)
theory Payload
  imports Runtime "HOL-Library.Char_ord" "HOL-Library.List_Lexorder"
begin

text \<open>
  The webhook payload of \<^verbatim>\<open>internal/delivery/delivery.go\<close>: its two structs, \<^verbatim>\<open>BuildPayload\<close>, and
  what \<^verbatim>\<open>json.Marshal\<close> makes of it.

  \<open>Marshal\<close> follows \<^verbatim>\<open>encoding/json\<close>: the fields in declaration order under their tags,
  \<^verbatim>\<open>omitempty\<close> fields left out when empty, a nil slice as \<^verbatim>\<open>null\<close>, map keys sorted, and strings
  with HTML escaping. The text of a time depends on the time zone and is the parameter
  \<open>env_time_json\<close>; a time it has no text for makes \<open>Marshal\<close> fail, as a year beyond 9999 does.
\<close>

section \<open>Building the payload\<close>

record payload_attachment =
  pa_filename :: string
  pa_content_type :: string
  pa_size :: int
  pa_content_b64 :: string
  pa_truncated :: bool

record payload =
  pl_message_id :: string
  pl_received_at :: int
  pl_route :: string
  pl_from :: string
  pl_rcpt :: "string list"
  pl_subject :: string
  pl_headers :: strmap
  pl_text :: string
  pl_html :: string
  pl_attachments :: "payload_attachment list"
  pl_raw_eml :: string

definition build_attachment :: "include_rules \<Rightarrow> attachment \<Rightarrow> payload_attachment" where
  "build_attachment inc a =
     (let att = \<lparr>pa_filename = at_filename a, pa_content_type = at_content_type a,
                 pa_size = int (length (at_content a)), pa_content_b64 = [], pa_truncated = False\<rparr>
      in if in_attachments inc then
           (if 0 < in_max_attachment_bytes inc
               \<and> in_max_attachment_bytes inc < int (length (at_content a))
            then att\<lparr>pa_truncated := True\<rparr>
            else att\<lparr>pa_content_b64 := b64_encode (at_content a)\<rparr>)
         else att)"

definition BuildPayload :: "string \<Rightarrow> int \<Rightarrow> route \<Rightarrow> message \<Rightarrow> payload" where
  "BuildPayload messageID receivedAt route m =
     \<lparr>pl_message_id = messageID, pl_received_at = receivedAt, pl_route = rt_name route,
      pl_from = mg_from m, pl_rcpt = mg_rcpt m, pl_subject = mg_subject m,
      pl_headers = mg_headers m, pl_text = mg_text m, pl_html = mg_html m,
      pl_attachments = map (build_attachment (rt_include route)) (mg_attachments m),
      pl_raw_eml = (if in_raw (rt_include route) then b64_encode (mg_raw m) else [])\<rparr>"

section \<open>JSON\<close>

datatype json =
    JNull
  | JTrue
  | JInt int
  | JStr string
  | JArr "json list"
  | JObj "(string \<times> json) list"

text \<open>One ASCII byte inside a JSON string, with the HTML-sensitive ones escaped.\<close>

definition json_escape :: "char \<Rightarrow> string" where
  "json_escape c =
     (let b = byte c in
      if b = 34 \<or> b = 92 then [char_of (92::nat), c]
      else if b = 8 then [char_of (92::nat), CHR ''b'']
      else if b = 12 then [char_of (92::nat), CHR ''f'']
      else if b = 10 then [char_of (92::nat), CHR ''n'']
      else if b = 13 then [char_of (92::nat), CHR ''r'']
      else if b = 9 then [char_of (92::nat), CHR ''t'']
      else if b < 32 \<or> c \<in> {CHR ''<'', CHR ''>'', CHR ''&''}
      then char_of (92::nat) # ''u00'' @ [hex_digit (b div 16), hex_digit (b mod 16)]
      else [c])"

text \<open>The rest of a string: an ill-formed byte becomes the escape of U+FFFD, and U+2028 and U+2029
  are escaped.\<close>

fun json_chars :: "bytes \<Rightarrow> string" where
  "json_chars [] = []"
| "json_chars (c # s) =
     (if byte c < 128 then json_escape c @ json_chars s
      else let (r, n) = decode_rune (c # s) in
        (if r = rune_error \<and> n = 1 then char_of (92::nat) # ''ufffd''
         else if r = 0x2028 \<or> r = 0x2029
         then char_of (92::nat) # ''u202'' @ [hex_digit (r mod 16)]
         else take n (c # s)) @ json_chars (drop (n - 1) s))"

definition json_string :: "bytes \<Rightarrow> string" where
  "json_string s = [CHR 0x22] @ json_chars s @ [CHR 0x22]"

fun json_print :: "json \<Rightarrow> string" where
  "json_print JNull = ''null''"
| "json_print JTrue = ''true''"
| "json_print (JInt i) = Itoa i"
| "json_print (JStr s) = json_string s"
| "json_print (JArr xs) = ''['' @ Join (map json_print xs) '','' @ '']''"
| "json_print (JObj fs) =
     ''{'' @ Join (map (\<lambda>(k, v). json_string k @ '':'' @ json_print v) fs) '','' @ ''}''"

definition omitempty :: "bool \<Rightarrow> string \<times> json \<Rightarrow> (string \<times> json) list" where
  "omitempty zero f = (if zero then [] else [f])"

definition attachment_json :: "payload_attachment \<Rightarrow> json" where
  "attachment_json a = JObj
     ([(''filename'', JStr (pa_filename a)), (''content_type'', JStr (pa_content_type a)),
       (''size'', JInt (pa_size a))]
      @ omitempty (pa_content_b64 a = []) (''content_b64'', JStr (pa_content_b64 a))
      @ omitempty (\<not> pa_truncated a) (''truncated'', JTrue))"

definition payload_json :: "string \<Rightarrow> payload \<Rightarrow> json" where
  "payload_json time p = JObj
     ([(''message_id'', JStr (pl_message_id p)), (''received_at'', JStr time),
       (''route'', JStr (pl_route p)), (''from'', JStr (pl_from p)),
       (''rcpt'', if pl_rcpt p = [] then JNull else JArr (map JStr (pl_rcpt p))),
       (''subject'', JStr (pl_subject p)),
       (''headers'', JObj (map (\<lambda>(k, v). (k, JStr v)) (sort_key fst (pl_headers p))))]
      @ omitempty (pl_text p = []) (''text'', JStr (pl_text p))
      @ omitempty (pl_html p = []) (''html'', JStr (pl_html p))
      @ omitempty (pl_attachments p = [])
          (''attachments'', JArr (map attachment_json (pl_attachments p)))
      @ omitempty (pl_raw_eml p = []) (''raw_eml_b64'', JStr (pl_raw_eml p)))"

definition Marshal :: "env \<Rightarrow> payload \<Rightarrow> string + bytes" where
  "Marshal E p =
     (case env_time_json E (pl_received_at p) of
        Inl e \<Rightarrow> Inl e
      | Inr t \<Rightarrow> Inr (json_print (payload_json t p)))"

text \<open>C27: a payload carries the envelope, the subject, headers, text and HTML of the parsed message, each
  in its own field, and one entry per attachment in order with its name, type and true size. The content is present, and decodes to exactly the
  attachment's bytes, when the route includes attachments and the attachment is within the cap; it is
  marked truncated, with no content, exactly when the route includes attachments and a positive cap is
  exceeded; and the raw message is present and decodes to the received bytes when the route asks for
  it.\<close>

theorem BuildPayload_content:
  fixes route :: route and m :: message and mid :: string and t :: int
  defines "p \<equiv> BuildPayload mid t route m" and "inc \<equiv> rt_include route"
  shows "pl_message_id p = mid \<and> pl_received_at p = t \<and> pl_route p = rt_name route
    \<and> pl_from p = mg_from m \<and> pl_rcpt p = mg_rcpt m
    \<and> pl_subject p = mg_subject m \<and> pl_headers p = mg_headers m
    \<and> pl_text p = mg_text m \<and> pl_html p = mg_html m
    \<and> length (pl_attachments p) = length (mg_attachments m)
    \<and> list_all2 (\<lambda>pa a. pa_filename pa = at_filename a \<and> pa_content_type pa = at_content_type a
         \<and> pa_size pa = int (length (at_content a))
         \<and> (pa_truncated pa \<longleftrightarrow> in_attachments inc \<and> 0 < in_max_attachment_bytes inc
              \<and> in_max_attachment_bytes inc < int (length (at_content a)))
         \<and> b64_decode (pa_content_b64 pa) =
             Some (if in_attachments inc \<and> \<not> pa_truncated pa then at_content a else []))
       (pl_attachments p) (mg_attachments m)
    \<and> b64_decode (pl_raw_eml p) = Some (if in_raw inc then mg_raw m else [])"
  by (auto simp: p_def inc_def BuildPayload_def build_attachment_def Let_def b64_decode_encode
      list_all2_map1 intro: list.rel_refl_strong)

section \<open>Reading a string back\<close>

text \<open>A JSON string reader, from behind the opening quote: the string and the text behind the
  closing quote. Escapes of surrogate halves are not needed, since the printer emits none.\<close>

definition utf8_bytes :: "nat \<Rightarrow> bytes" where
  "utf8_bytes r = map char_of
     (if r < 128 then [r]
      else if r < 2048 then [0xC0 + r div 64, 0x80 + r mod 64]
      else [0xE0 + r div 4096, 0x80 + r div 64 mod 64, 0x80 + r mod 64])"

definition json_unescape :: "char \<Rightarrow> char option" where
  "json_unescape c =
     (if c = CHR 0x22 \<or> c = CHR 0x5C \<or> c = CHR ''/'' then Some c
      else if c = CHR ''b'' then Some (char_of (8::nat))
      else if c = CHR ''f'' then Some (char_of (12::nat))
      else if c = CHR ''n'' then Some (char_of (10::nat))
      else if c = CHR ''r'' then Some (char_of (13::nat))
      else if c = CHR ''t'' then Some (char_of (9::nat)) else None)"

fun json_scan :: "string \<Rightarrow> (bytes \<times> string) option" where
  "json_scan [] = None"
| "json_scan (c # cs) =
     (if c = CHR 0x22 then Some ([], cs)
      else if c = CHR 0x5C then
        (case cs of
           [] \<Rightarrow> None
         | e # es \<Rightarrow>
             if e = CHR ''u'' then
               (case map hex_value (take 4 es) of
                  [Some h, Some i, Some j, Some k] \<Rightarrow>
                    map_option (\<lambda>(s, r). (utf8_bytes (((h * 16 + i) * 16 + j) * 16 + k) @ s, r))
                      (json_scan (drop 4 es))
                | _ \<Rightarrow> None)
             else (case json_unescape e of
                     None \<Rightarrow> None
                   | Some x \<Rightarrow> map_option (\<lambda>(s, r). (x # s, r)) (json_scan es)))
      else if byte c < 32 then None
      else map_option (\<lambda>(s, r). (c # s, r)) (json_scan cs))"

text \<open>Go's replacement of ill-formed UTF-8: each bad byte becomes U+FFFD.\<close>

fun to_valid :: "bytes \<Rightarrow> bytes" where
  "to_valid [] = []"
| "to_valid (c # s) =
     (let (r, n) = decode_rune (c # s) in
      (if r = rune_error \<and> n = 1 then utf8_bytes rune_error else take n (c # s))
      @ to_valid (drop (n - 1) s))"

lemma hex_value_digit: "n < 16 \<Longrightarrow> hex_value (hex_digit n) = Some n"
  by (auto simp: hex_value_def hex_digit_def Let_def)

lemma json_scan_literal:
  "list_all (\<lambda>c. 128 \<le> byte c) xs \<Longrightarrow>
     json_scan (xs @ ys) = map_option (\<lambda>(s, r). (xs @ s, r)) (json_scan ys)"
proof (induction xs)
  case (Cons x xs)
  then have "x \<noteq> CHR 0x22" "x \<noteq> CHR 0x5C" "\<not> byte x < 32" by (auto simp: byte_def)
  with Cons show ?case by (simp add: option.map_comp comp_def case_prod_beta)
qed (simp add: option.map_ident_strong)

lemma char_eq_byte: "c = d \<longleftrightarrow> byte c = byte d"
  by (metis char_of_byte)

lemma byte_chars [simp]:
  "byte CHR 0x22 = 34" "byte CHR 0x5C = 92" "byte CHR ''<'' = 60" "byte CHR ''>'' = 62"
  "byte CHR ''&'' = 38" "byte CHR ''b'' = 98" "byte CHR ''f'' = 102" "byte CHR ''n'' = 110"
  "byte CHR ''r'' = 114" "byte CHR ''t'' = 116" "byte CHR ''u'' = 117" "byte CHR ''/'' = 47"
  "byte CHR ''0'' = 48" "byte CHR ''2'' = 50" "byte CHR ''d'' = 100"
  by (simp_all add: byte_def)

lemma json_scan_u00:
  assumes "byte c < 128"
  shows "json_scan (CHR 0x5C # ''u00'' @ [hex_digit (byte c div 16), hex_digit (byte c mod 16)] @ ys)
    = map_option (\<lambda>(s, r). (c # s, r)) (json_scan ys)"
proof -
  have "hex_value CHR ''0'' = Some 0" by (simp add: hex_value_def)
  moreover have "utf8_bytes (byte c) = [c]" using assms by (simp add: utf8_bytes_def)
  moreover have "byte c div 16 < 16" "byte c mod 16 < 16" "byte c div 16 * 16 + byte c mod 16 = byte c"
    using assms by auto
  ultimately show ?thesis by (simp add: hex_value_digit)
qed

lemma json_escape_short:
  assumes "byte c \<in> {34, 92, 8, 12, 10, 13, 9}"
  shows "json_escape c = [CHR 0x5C, json_escape c ! 1]
    \<and> json_unescape (json_escape c ! 1) = Some c \<and> json_escape c ! 1 \<noteq> CHR ''u''"
proof -
  have chars: "char_of (92::nat) = CHR 0x5C" "char_of (8::nat) = CHR 0x08" "char_of (12::nat) = CHR 0x0C"
    "char_of (10::nat) = CHR 0x0A" "char_of (13::nat) = CHR 0x0D" "char_of (9::nat) = CHR 0x09"
    by (simp_all add: char_eq_byte) (simp_all add: byte_def)
  from assms consider "c = CHR 0x22" | "c = CHR 0x5C" | "c = CHR 0x08" | "c = CHR 0x0C"
    | "c = CHR 0x0A" | "c = CHR 0x0D" | "c = CHR 0x09"
    by (auto simp: char_eq_byte byte_def)
  then show ?thesis
    by cases (simp_all add: json_escape_def json_unescape_def byte_def chars Let_def)
qed

lemma json_scan_escape:
  assumes "byte c < 128"
  shows "json_scan (json_escape c @ ys) = map_option (\<lambda>(s, r). (c # s, r)) (json_scan ys)"
proof -
  have esc: "json_scan (CHR 0x5C # d # ys) = map_option (\<lambda>(s, r). (c # s, r)) (json_scan ys)"
    if "json_unescape d = Some c" "d \<noteq> CHR ''u''" for d
    using that by simp
  have lit: "json_scan (c # ys) = map_option (\<lambda>(s, r). (c # s, r)) (json_scan ys)"
    if "byte c \<noteq> 34" "byte c \<noteq> 92" "\<not> byte c < 32"
    using that by (auto simp: char_eq_byte)
  consider "byte c \<in> {34, 92, 8, 12, 10, 13, 9}"
    | "byte c \<notin> {34, 92, 8, 12, 10, 13, 9}" "byte c < 32 \<or> c \<in> {CHR ''<'', CHR ''>'', CHR ''&''}"
    | "byte c \<notin> {34, 92, 8, 12, 10, 13, 9}" "\<not> (byte c < 32 \<or> c \<in> {CHR ''<'', CHR ''>'', CHR ''&''})"
    by blast
  then show ?thesis
  proof cases
    case 1
    from json_escape_short [OF this] esc [of "json_escape c ! 1"] show ?thesis
      by (metis append_Cons append_Nil)
  next
    case 2
    have bs: "char_of (92::nat) = CHR 0x5C" by (simp add: char_eq_byte)
    from 2 have "json_escape c
        = CHR 0x5C # ''u00'' @ [hex_digit (byte c div 16), hex_digit (byte c mod 16)]"
      unfolding json_escape_def Let_def bs by auto
    with json_scan_u00 [OF assms, of ys] show ?thesis by simp
  next
    case 3
    then have "json_escape c = [c]" by (auto simp: json_escape_def Let_def)
    with 3 lit show ?thesis by auto
  qed
qed

lemma decode_rune_size:
  assumes "decode_rune (c # s) = (r, n)" "128 \<le> byte c"
  shows "n = 1 \<and> r = rune_error \<or> 1 < n \<and> list_all (\<lambda>x. 128 \<le> byte x) (take n (c # s))"
proof -
  consider "s = []" | c1 where "s = [c1]" | c1 c2 where "s = [c1, c2]"
    | c1 c2 c3 t where "s = c1 # c2 # c3 # t"
    by (metis list.exhaust)
  then show ?thesis
    by cases (use assms in \<open>auto simp: decode_rune_def cont_def split: if_splits\<close>)
qed

lemma decode_rune_separator:
  assumes "decode_rune (c # s) = (r, n)" "128 \<le> byte c" "r = 0x2028 \<or> r = 0x2029"
  shows "take n (c # s) = utf8_bytes r"
proof -
  have three: "a = 2 \<and> x = 0 \<and> y = r - 0x2000"
    if "a * 4096 + x * 64 + y = r" "x \<le> 63" "y \<le> 63" for a x y :: nat
  proof -
    have r: "8232 \<le> r" "r \<le> 8233" using assms(3) by auto
    have "a < 3" "1 < a" using that r by linarith+
    then have "a = 2" by simp
    moreover from this have "x < 1" using that r by linarith
    ultimately show ?thesis using that by simp
  qed
  consider "s = []" | c1 where "s = [c1]" | c1 c2 t where "s = c1 # c2 # t"
    by (metis list.exhaust)
  then show ?thesis
  proof cases
    case (3 c1 c2 t)
    have h: "n = 3 \<and> (byte c - 0xE0) * 4096 + (byte c1 - 0x80) * 64 + (byte c2 - 0x80) = r
      \<and> 0xE0 \<le> byte c \<and> cont (byte c1) \<and> cont (byte c2)"
    proof -
      have ne: "r \<noteq> rune_error" using assms(3) by (auto simp: rune_error_def)
      consider (two) "0xC2 \<le> byte c" "byte c \<le> 0xDF" | (three) "0xE0 \<le> byte c" "byte c \<le> 0xEF"
        | (four) "0xF0 \<le> byte c" "byte c \<le> 0xF4" | (bad) "byte c < 0xC2 \<or> 0xF4 < byte c"
        by linarith
      then show ?thesis
      proof cases
        case two
        with assms(1,2) 3 ne have "r = (byte c - 0xC0) * 64 + (byte c1 - 0x80)" "byte c1 \<le> 0xBF"
          by (auto simp: decode_rune_def cont_def split: if_splits)
        with two assms(3) show ?thesis by linarith
      next
        case three
        with assms(1,2) 3 ne show ?thesis
          by (auto simp: decode_rune_def cont_def split: if_splits)
      next
        case four
        obtain c3 u where t: "t = c3 # u"
          using assms(1,2) 3 ne four by (cases t) (auto simp: decode_rune_def)
        with four assms(1,2) 3 ne have
          "r = (byte c - 0xF0) * 262144 + (byte c1 - 0x80) * 4096 + (byte c2 - 0x80) * 64 + (byte c3 - 0x80)"
          "(if byte c = 0xF0 then 0x90 else 0x80) \<le> byte c1"
          by (auto simp: decode_rune_def split: if_splits)
        with four assms(3) show ?thesis by (auto split: if_splits)
      next
        case bad
        with assms(1,2) 3 ne show ?thesis by (auto simp: decode_rune_def)
      qed
    qed
    then have "byte c - 0xE0 = 2 \<and> byte c1 - 0x80 = 0 \<and> byte c2 - 0x80 = r - 0x2000"
      by (intro three) (auto simp: cont_def)
    with h have "n = 3" "byte c = 0xE2" "byte c1 = 0x80" "byte c2 = 0x80 + (r - 0x2000)"
      unfolding cont_def by linarith+
    with 3 assms(3) show ?thesis
      by (auto simp: utf8_bytes_def char_eq_byte)
  qed (use assms in \<open>auto simp: decode_rune_def cont_def rune_error_def split: if_splits\<close>)
qed

lemma json_scan_chars:
  "json_scan (json_chars s @ ys) = map_option (\<lambda>(t, r). (to_valid s @ t, r)) (json_scan ys)"
proof (induction s rule: json_chars.induct)
  case 1
  then show ?case by (simp add: option.map_ident_strong)
next
  case (2 c s)
  show ?case
  proof (cases "byte c < 128")
    case True
    then have "decode_rune (c # s) = (byte c, 1)" by (simp add: decode_rune_def)
    with True 2 show ?thesis
      by (simp add: json_scan_escape rune_error_def option.map_comp comp_def case_prod_beta)
  next
    case False
    obtain r n where rn: "decode_rune (c # s) = (r, n)" by fastforce
    let ?out = "if r = rune_error \<and> n = 1 then CHR 0x5C # ''ufffd''
       else if r = 0x2028 \<or> r = 0x2029 then CHR 0x5C # ''u202'' @ [hex_digit (r mod 16)]
       else take n (c # s)"
    let ?in = "if r = rune_error \<and> n = 1 then utf8_bytes rune_error else take n (c # s)"
    have out: "json_scan (?out @ zs) = map_option (\<lambda>(t, r). (?in @ t, r)) (json_scan zs)" for zs
    proof -
      have "hex_value CHR ''0'' = Some 0" "hex_value CHR ''2'' = Some 2"
        "hex_value CHR ''f'' = Some 15" "hex_value CHR ''d'' = Some 13"
        "hex_value (hex_digit (r mod 16)) = Some (r mod 16)"
        by (simp_all add: hex_value_digit) (simp_all add: hex_value_def byte_def)
      moreover have "take n (c # s) = utf8_bytes r" if "r = 0x2028 \<or> r = 0x2029"
        using decode_rune_separator [OF rn] False that by simp
      moreover have "json_scan (take n (c # s) @ zs) = map_option (\<lambda>(t, r). (take n (c # s) @ t, r)) (json_scan zs)"
        if "\<not> (r = rune_error \<and> n = 1)"
        using decode_rune_size [OF rn] False that by (intro json_scan_literal) auto
      ultimately show ?thesis by (auto simp: rune_error_def simp del: take_Cons')
    qed
    have bs: "char_of (92::nat) = CHR 0x5C" by (simp add: char_eq_byte)
    have "json_chars (c # s) = ?out @ json_chars (drop (n - 1) s)"
      "to_valid (c # s) = ?in @ to_valid (drop (n - 1) s)"
      using False rn by (simp_all add: bs)
    moreover have "json_scan (json_chars (drop (n - 1) s) @ ys)
        = map_option (\<lambda>(t, r). (to_valid (drop (n - 1) s) @ t, r)) (json_scan ys)"
      using 2 False rn by simp
    ultimately show ?thesis
      by (simp only: append_assoc out) (simp add: option.map_comp comp_def case_prod_beta)
  qed
qed

section \<open>Properties\<close>

text \<open>No string a sender controls can leave the JSON string it is put in: a reader of the encoded
  string, whatever text follows it, stops at exactly the closing quote the encoder wrote and recovers
  the string, with ill-formed UTF-8 replaced.\<close>

lemma json_string_roundtrip:
  "\<exists>body. json_string s = CHR 0x22 # body \<and> json_scan (body @ rest) = Some (to_valid s, rest)"
  by (simp add: json_string_def json_scan_chars)

end
