(* ===== verification/Store.thy ===== *)
theory Store
  imports Runtime
begin

text \<open>
  \<^verbatim>\<open>internal/store/store.go\<close>: the methods of \<^verbatim>\<open>Store\<close> on the tables of \<^theory_text>\<open>Tables\<close>, with the
  two opt-out flags of the receiver and every error path. A method runs its statements through
  \<open>db_exec\<close>, so a failing statement is visible in its result and leaves the tables alone.
\<close>

section \<open>Store and its log entries\<close>

record store =
  st_logContent :: bool
  st_logRejections :: bool

record message_log =
  lg_ID :: string
  lg_ReceivedAt :: int
  lg_From :: string
  lg_Rcpt :: "string list"
  lg_Route :: string
  lg_Subject :: string
  lg_Size :: int
  lg_RemoteAddr :: string
  lg_Username :: string
  lg_Port :: int
  lg_Raw :: bytes

record message_summary =
  su_ID :: string
  su_ReceivedAt :: int
  su_From :: string
  su_Rcpt :: string
  su_Route :: string
  su_Subject :: string
  su_Size :: int
  su_Username :: string
  su_Port :: int

record stored_message = message_summary +
  su_RemoteAddr :: string
  su_Raw :: bytes

record rejection =
  re_ID :: int
  re_At :: int
  re_Stage :: string
  re_Code :: int
  re_RemoteAddr :: string
  re_Username :: string
  re_From :: string
  re_Rcpt :: string
  re_Reason :: string
  re_Port :: int

definition boolToInt :: "bool \<Rightarrow> int" where
  "boolToInt b = (if b then 1 else 0)"

definition from_millis :: "int \<Rightarrow> int" where
  "from_millis t = t * 1000000"

definition message_row_of :: "message_log \<Rightarrow> message_row" where
  "message_row_of m =
     \<lparr>ms_id = lg_ID m, ms_received_at = UnixMilli (lg_ReceivedAt m), ms_from = lg_From m,
      ms_rcpt = Join (lg_Rcpt m) '', '', ms_route = lg_Route m, ms_subject = lg_Subject m,
      ms_size = lg_Size m, ms_remote_addr = lg_RemoteAddr m, ms_username = lg_Username m,
      ms_port = Some (lg_Port m), ms_raw = lg_Raw m\<rparr>"

definition summary_of :: "message_row \<Rightarrow> message_summary" where
  "summary_of r =
     \<lparr>su_ID = ms_id r, su_ReceivedAt = from_millis (ms_received_at r), su_From = ms_from r,
      su_Rcpt = ms_rcpt r, su_Route = ms_route r, su_Subject = ms_subject r, su_Size = ms_size r,
      su_Username = ms_username r, su_Port = coalesce0 (ms_port r)\<rparr>"

definition stored_of :: "message_row \<Rightarrow> stored_message" where
  "stored_of r =
     \<lparr>su_ID = ms_id r, su_ReceivedAt = from_millis (ms_received_at r), su_From = ms_from r,
      su_Rcpt = ms_rcpt r, su_Route = ms_route r, su_Subject = ms_subject r, su_Size = ms_size r,
      su_Username = ms_username r, su_Port = coalesce0 (ms_port r),
      su_RemoteAddr = ms_remote_addr r, su_Raw = ms_raw r\<rparr>"

definition rejection_of :: "rejection_row \<Rightarrow> rejection" where
  "rejection_of r =
     \<lparr>re_ID = rj_id r, re_At = from_millis (rj_at r), re_Stage = rj_stage r, re_Code = rj_code r,
      re_RemoteAddr = rj_remote_addr r, re_Username = rj_username r, re_From = rj_from r,
      re_Rcpt = rj_rcpt r, re_Reason = rj_reason r, re_Port = coalesce0 (rj_port r)\<rparr>"

definition rejection_row_of :: "rejection \<Rightarrow> int \<Rightarrow> rejection_row" where
  "rejection_row_of r i =
     \<lparr>rj_id = i, rj_at = UnixMilli (re_At r), rj_stage = re_Stage r, rj_code = re_Code r,
      rj_remote_addr = re_RemoteAddr r, rj_username = re_Username r, rj_from = re_From r,
      rj_rcpt = re_Rcpt r, rj_reason = re_Reason r, rj_port = Some (re_Port r)\<rparr>"

text \<open>\<^verbatim>\<open>fmt.Errorf("prefix: %w", err)\<close> on the result of a statement.\<close>

definition wrap_error :: "string \<Rightarrow> string + 'a \<Rightarrow> goerror" where
  "wrap_error pre r = (case r of Inl e \<Rightarrow> Some (pre @ e) | Inr _ \<Rightarrow> None)"

definition count_or_error :: "string \<Rightarrow> string + int \<Rightarrow> string + int" where
  "count_or_error pre r = (case r of Inl e \<Rightarrow> Inl (pre @ e) | Inr n \<Rightarrow> Inr n)"

text \<open>Opening the file and migrating its schema is \<open>open_db\<close>: the tables found there, or an error.\<close>

definition Open ::
  "(string \<Rightarrow> string + db) \<Rightarrow> string \<Rightarrow> bool \<Rightarrow> bool \<Rightarrow> string + store \<times> db" where
  "Open open_db path logContent logRejections =
     (case open_db path of
        Inl err \<Rightarrow> Inl err
      | Inr d \<Rightarrow> Inr (\<lparr>st_logContent = logContent, st_logRejections = logRejections\<rparr>, d))"

section \<open>Message log\<close>

definition LogMessage :: "env \<Rightarrow> store \<Rightarrow> message_log \<Rightarrow> (world, goerror) state" where
  "LogMessage E s m =
     (if \<not> st_logContent s then State_Monad.return None
      else do {
        r \<leftarrow> db_exec E (sql_replace_message (message_row_of m));
        State_Monad.return (wrap_error ''log message: '' r)
      })"

definition LogDelivery ::
  "env \<Rightarrow> store \<Rightarrow> string \<Rightarrow> string \<Rightarrow> int \<Rightarrow> int \<Rightarrow> bool \<Rightarrow> string \<Rightarrow> (world, goerror) state" where
  "LogDelivery E s messageID route attempt statusCode success errMsg =
     (if \<not> st_logContent s then State_Monad.return None
      else do {
        now \<leftarrow> time_Now E;
        r \<leftarrow> db_exec E (sql_insert_delivery (\<lambda>i.
          \<lparr>dv_id = i, dv_message_id = messageID, dv_route = route, dv_attempt = attempt,
           dv_attempted_at = UnixMilli now, dv_status_code = statusCode,
           dv_success = boolToInt success, dv_error = errMsg\<rparr>));
        State_Monad.return (wrap_error [] r)
      })"

definition RecentMessages ::
  "env \<Rightarrow> int \<Rightarrow> (world, string + message_summary list) state" where
  "RecentMessages E limit = do {
     r \<leftarrow> db_exec E (sql_recent_messages limit);
     State_Monad.return (map_sum id (map summary_of) r)
   }"

definition GetMessage :: "env \<Rightarrow> string \<Rightarrow> (world, string + stored_message option) state" where
  "GetMessage E i = do {
     r \<leftarrow> db_exec E (sql_message_by_id i);
     State_Monad.return (map_sum id (map_option stored_of) r)
   }"

definition DeleteMessages :: "env \<Rightarrow> string list \<Rightarrow> (world, string + int) state" where
  "DeleteMessages E ids =
     (if ids = [] then State_Monad.return (Inr 0)
      else do {
        _ \<leftarrow> db_exec E (sql_delete_deliveries ids);
        r \<leftarrow> db_exec E (sql_delete_messages ids);
        State_Monad.return (count_or_error ''delete messages: '' r)
      })"

definition DeleteAllMessages :: "env \<Rightarrow> (world, string + int) state" where
  "DeleteAllMessages E = do {
     _ \<leftarrow> db_exec E sql_delete_all_deliveries;
     r \<leftarrow> db_exec E sql_delete_all_messages;
     State_Monad.return (count_or_error ''delete all messages: '' r)
   }"

section \<open>Rejection log\<close>

definition LogRejection :: "env \<Rightarrow> store \<Rightarrow> rejection \<Rightarrow> (world, goerror) state" where
  "LogRejection E s r =
     (if \<not> st_logRejections s then State_Monad.return None
      else do {
        x \<leftarrow> db_exec E (sql_insert_rejection (rejection_row_of r));
        State_Monad.return (wrap_error ''log rejection: '' x)
      })"

definition RecentRejections :: "env \<Rightarrow> int \<Rightarrow> (world, string + rejection list) state" where
  "RecentRejections E limit = do {
     r \<leftarrow> db_exec E (sql_recent_rejections limit);
     State_Monad.return (map_sum id (map rejection_of) r)
   }"

definition DeleteRejections :: "env \<Rightarrow> int list \<Rightarrow> (world, string + int) state" where
  "DeleteRejections E ids =
     (if ids = [] then State_Monad.return (Inr 0)
      else do {
        r \<leftarrow> db_exec E (sql_delete_rejections ids);
        State_Monad.return (count_or_error ''delete rejections: '' r)
      })"

definition DeleteAllRejections :: "env \<Rightarrow> (world, string + int) state" where
  "DeleteAllRejections E = do {
     r \<leftarrow> db_exec E sql_delete_all_rejections;
     State_Monad.return (count_or_error ''delete all rejections: '' r)
   }"

definition PurgeRejectionsOlderThan :: "env \<Rightarrow> int \<Rightarrow> (world, string + int) state" where
  "PurgeRejectionsOlderThan E cutoff = do {
     r \<leftarrow> db_exec E (sql_purge_rejections (UnixMilli cutoff));
     State_Monad.return (count_or_error ''purge rejections: '' r)
   }"

section \<open>Delivery queue\<close>

definition Enqueue :: "env \<Rightarrow> string \<Rightarrow> string \<Rightarrow> bytes \<Rightarrow> (world, goerror) state" where
  "Enqueue E messageID route payload = do {
     t \<leftarrow> time_Now E;
     r \<leftarrow> db_exec E (sql_insert_queue messageID route payload (UnixMilli t));
     State_Monad.return (wrap_error ''enqueue: '' r)
   }"

definition ClaimDue :: "env \<Rightarrow> int \<Rightarrow> (world, string + job list) state" where
  "ClaimDue E limit = do {
     t \<leftarrow> time_Now E;
     db_exec E (sql_due (UnixMilli t) limit)
   }"

definition CompleteJob :: "env \<Rightarrow> int \<Rightarrow> (world, goerror) state" where
  "CompleteJob E i = do {
     r \<leftarrow> db_exec E (sql_delete_job i);
     State_Monad.return (wrap_error [] r)
   }"

definition RescheduleJob :: "env \<Rightarrow> int \<Rightarrow> int \<Rightarrow> int \<Rightarrow> (world, goerror) state" where
  "RescheduleJob E i attempts next = do {
     r \<leftarrow> db_exec E (sql_update_job i attempts (UnixMilli next));
     State_Monad.return (wrap_error [] r)
   }"

lemmas store_defs = LogMessage_def LogDelivery_def RecentMessages_def GetMessage_def
  DeleteMessages_def DeleteAllMessages_def LogRejection_def RecentRejections_def
  DeleteRejections_def DeleteAllRejections_def PurgeRejectionsOlderThan_def Enqueue_def
  ClaimDue_def CompleteJob_def RescheduleJob_def

section \<open>Frames: which tables a method leaves alone\<close>

lemma wrap_error_None: "wrap_error p r = None \<longleftrightarrow> \<not> isl r"
  by (cases r) (auto simp: wrap_error_def)

text \<open>The parts of the database a method can touch.\<close>

definition queue_part :: "world \<Rightarrow> queue_row list \<times> int" where
  "queue_part w = (queue (db_of w), queue_seq (db_of w))"

definition message_part :: "world \<Rightarrow> message_row list" where
  "message_part w = messages (db_of w)"

definition rejection_part :: "world \<Rightarrow> rejection_row list \<times> int" where
  "rejection_part w = (rejections (db_of w), rejections_seq (db_of w))"

lemmas part_defs = queue_part_def message_part_def rejection_part_def

lemma keeps_queue_store [intro!, simp]:
  "keeps queue_part (LogMessage E s m)"
  "keeps queue_part (LogDelivery E s mid rt a c b err)"
  "keeps queue_part (LogRejection E s rej)"
  "keeps queue_part (DeleteMessages E ids)" "keeps queue_part (DeleteAllMessages E)"
  "keeps queue_part (DeleteRejections E ris)" "keeps queue_part (DeleteAllRejections E)"
  "keeps queue_part (PurgeRejectionsOlderThan E t)" "keeps queue_part (ClaimDue E lim)"
  by (auto simp: keeps_def part_defs store_defs sql_defs after_db_exec run_simps)

lemma keeps_message_store [intro!, simp]:
  "keeps message_part (LogDelivery E s mid rt a c b err)"
  "keeps message_part (LogRejection E s rej)"
  "keeps message_part (DeleteRejections E ris)" "keeps message_part (DeleteAllRejections E)"
  "keeps message_part (PurgeRejectionsOlderThan E t)" "keeps message_part (ClaimDue E lim)"
  "keeps message_part (Enqueue E mid rt p)" "keeps message_part (CompleteJob E i)"
  "keeps message_part (RescheduleJob E i a t)"
  by (auto simp: keeps_def part_defs store_defs sql_defs after_db_exec run_simps)

lemma keeps_http_store [intro!, simp]:
  "keeps http_sent (LogMessage E s m)" "keeps http_sent (LogDelivery E s mid rt a c b err)"
  "keeps http_sent (LogRejection E s rej)" "keeps http_sent (Enqueue E mid rt p)"
  "keeps http_sent (CompleteJob E i)" "keeps http_sent (RescheduleJob E i a t)"
  "keeps http_sent (ClaimDue E lim)"
  by (auto simp: keeps_def store_defs after_db_exec run_simps)

lemma keeps_db_calls [intro!, simp]:
  "keeps db_of (time_Now E)" "keeps db_of (new_uuid E)" "keeps db_of (client_Do E req)"
  by (auto simp: keeps_def run_simps)

abbreviation preserves_db :: "(world, 'a) state \<Rightarrow> bool" where
  "preserves_db \<equiv> preserves (\<lambda>w. db_ok (db_of w))"

lemma preserves_db_store [intro!, simp]:
  "preserves_db (LogMessage E s m)" "preserves_db (LogDelivery E s mid rt a c b err)"
  "preserves_db (LogRejection E s rej)" "preserves_db (Enqueue E mid rt p)"
  "preserves_db (CompleteJob E i)" "preserves_db (RescheduleJob E i a t)"
  "preserves_db (ClaimDue E lim)" "preserves_db (DeleteMessages E ids)"
  "preserves_db (DeleteAllMessages E)" "preserves_db (DeleteRejections E ris)"
  "preserves_db (DeleteAllRejections E)" "preserves_db (PurgeRejectionsOlderThan E t)"
  "preserves_db (RecentMessages E lim)" "preserves_db (RecentRejections E lim)"
  "preserves_db (GetMessage E mid)"
  by (auto simp: preserves_def store_defs after_db_exec run_simps db_ok_statements
      rejection_row_of_def)
    (auto simp: sql_due_def sql_recent_messages_def sql_recent_rejections_def sql_message_by_id_def)

section \<open>Properties\<close>

text \<open>Concrete environments for the examples: a clock stuck at one second, no failing statement, and
  every webhook answering with one status.\<close>

definition env_answering :: "http_outcome \<Rightarrow> env" where
  "env_answering r =
     \<lparr>env_now = (\<lambda>_. 1000000000), env_uuid = (\<lambda>_. ''id-1''), env_db_error = (\<lambda>_. None),
      env_request_error = (\<lambda>_ _. None), env_client_do = (\<lambda>_ _. r), env_bcrypt = (=),
      env_fold = id, env_time_json = (\<lambda>_. Inr ''1970-01-01T00:00:01Z''),
      env_add_days = (\<lambda>t n. t + n * 86400000000000), env_read = (\<lambda>_. None), env_getenv = (\<lambda>_. []),
      env_quote = (\<lambda>s. [char_of (34::nat)] @ s @ [char_of (34::nat)]),
      env_auth_unsupported = \<lparr>se_Code = 502, se_EnhancedCode = (5, 7, 0), se_Message = ''no''\<rparr>\<rparr>"

definition env_db_down :: env where
  "env_db_down = (env_answering (Responded 200))\<lparr>env_db_error := (\<lambda>_. Some ''disk I/O error'')\<rparr>"

lemma db_reliable_answering [simp]: "db_reliable (env_answering r)"
  by (simp add: db_reliable_def env_answering_def)

definition example_log :: message_log where
  "example_log = \<lparr>lg_ID = ''m1'', lg_ReceivedAt = 1234567890, lg_From = ''a@b'',
     lg_Rcpt = [''x@y'', ''z@y''], lg_Route = ''r'', lg_Subject = ''s'', lg_Size = 3,
     lg_RemoteAddr = ''10.0.0.1:5'', lg_Username = ''u'', lg_Port = 587, lg_Raw = ''raw''\<rparr>"

text \<open>C28: with content logging on and a working database, a logged message can be read back by
  its id with every field as logged, the recipients joined and the time cut to milliseconds, and
  whatever was stored under another id is as before; with content logging off the call succeeds and
  changes nothing.\<close>

theorem LogMessage_GetMessage:
  assumes "db_reliable E"
  shows "(st_logContent s \<longrightarrow>
      result (LogMessage E s m) w = None
      \<and> result (GetMessage E (lg_ID m)) (after (LogMessage E s m) w) =
          Inr (Some \<lparr>su_ID = lg_ID m, su_ReceivedAt = lg_ReceivedAt m div 1000000 * 1000000,
            su_From = lg_From m, su_Rcpt = Join (lg_Rcpt m) '', '', su_Route = lg_Route m,
            su_Subject = lg_Subject m, su_Size = lg_Size m, su_Username = lg_Username m,
            su_Port = lg_Port m, su_RemoteAddr = lg_RemoteAddr m, su_Raw = lg_Raw m\<rparr>)
      \<and> (\<forall>i. i \<noteq> lg_ID m \<longrightarrow>
           result (GetMessage E i) (after (LogMessage E s m) w) = result (GetMessage E i) w))
    \<and> (\<not> st_logContent s \<longrightarrow> result (LogMessage E s m) w = None \<and> after (LogMessage E s m) w = w)"
proof -
  have env: "env_db_error E n = None" for n using assms by (simp add: db_reliable_def)
  have miss: "find (\<lambda>r. ms_id r = lg_ID m) (filter (\<lambda>x. ms_id x \<noteq> lg_ID m) xs) = None" for xs :: "message_row list"
    by (simp add: find_None_iff)
  have other: "find (\<lambda>r. ms_id r = i) (filter (\<lambda>x. ms_id x \<noteq> lg_ID m) xs) = find (\<lambda>r. ms_id r = i) xs"
    if "i \<noteq> lg_ID m" for i and xs :: "message_row list" using that by (induction xs) auto
  show ?thesis
    using assms
    by (auto simp: store_defs sql_defs result_db_exec after_db_exec env find_append miss other
        wrap_error_def message_row_of_def stored_of_def coalesce0_def UnixMilli_def from_millis_def
        split: option.splits)
qed

theorem LogMessage_GetMessage_witness:
  "result (GetMessage (env_answering (Responded 200)) ''m1'')
     (after (LogMessage (env_answering (Responded 200)) \<lparr>st_logContent = True, st_logRejections = True\<rparr>
        example_log) initial_world)
   = Inr (Some \<lparr>su_ID = ''m1'', su_ReceivedAt = 1234000000, su_From = ''a@b'',
       su_Rcpt = ''x@y, z@y'', su_Route = ''r'', su_Subject = ''s'', su_Size = 3,
       su_Username = ''u'', su_Port = 587, su_RemoteAddr = ''10.0.0.1:5'', su_Raw = ''raw''\<rparr>)"
  using LogMessage_GetMessage [of "env_answering (Responded 200)"
      "\<lparr>st_logContent = True, st_logRejections = True\<rparr>" example_log initial_world]
  by (simp add: example_log_def)

text \<open>C21: a claim returns distinct jobs, each a row of the queue that is due at the moment of the
  claim, no more than the limit when that is not negative, and it changes no table; a due job that is
  not returned was crowded out by as many jobs as the limit allows, none of them due later than it.\<close>

theorem ClaimDue_spec:
  assumes "db_ok (db_of w)" and "result (ClaimDue E limit) w = Inr js"
  defines "now \<equiv> UnixMilli (env_now E (n_now w))"
  shows "db_of (after (ClaimDue E limit) w) = db_of w
    \<and> distinct (map jb_ID js) \<and> (0 \<le> limit \<longrightarrow> length js \<le> nat limit)
    \<and> (\<forall>j\<in>set js. \<exists>r\<in>set (queue (db_of w)). j = job_of r \<and> qu_next_attempt_at r \<le> now)
    \<and> (\<forall>r\<in>set (queue (db_of w)). qu_next_attempt_at r \<le> now \<and> job_of r \<notin> set js \<longrightarrow>
         0 \<le> limit \<and> length js = nat limit
         \<and> (\<forall>r'\<in>set (queue (db_of w)). job_of r' \<in> set js \<longrightarrow>
              qu_next_attempt_at r' \<le> qu_next_attempt_at r))"
proof -
  have js: "js = fst (sql_due now limit (db_of w))"
    using assms(2) by (simp add: ClaimDue_def run_simps db_exec_ok now_def)
  have map: "queue_map (db_of w) (qu_id r) = Some (job_of r, qu_next_attempt_at r)"
    if "r \<in> set (queue (db_of w))" for r
    using that assms(1) by (auto simp: queue_map_Some)
  have "db_of (after (ClaimDue E limit) w) = db_of w"
    by (simp add: ClaimDue_def run_simps after_db_exec sql_due_def)
  moreover have "distinct (map jb_ID js)" unfolding js using assms(1) by (rule jq.due_distinct)
  moreover have "0 \<le> limit \<longrightarrow> length js \<le> nat limit"
    by (simp add: js sql_due_def length_sql_limit)
  moreover have "\<exists>r\<in>set (queue (db_of w)). j = job_of r \<and> qu_next_attempt_at r \<le> now"
    if j: "j \<in> set js" for j
  proof -
    from jq.due_sound [OF assms(1) j [unfolded js]] obtain t
      where "t \<le> now" "queue_map (db_of w) (jb_ID j) = Some (j, t)" by blast
    then show ?thesis using assms(1) by (auto simp: queue_map_Some)
  qed
  moreover have "0 \<le> limit \<and> length js = nat limit
      \<and> (\<forall>r'\<in>set (queue (db_of w)). job_of r' \<in> set js \<longrightarrow>
           qu_next_attempt_at r' \<le> qu_next_attempt_at r)"
    if r: "r \<in> set (queue (db_of w))" "qu_next_attempt_at r \<le> now" "job_of r \<notin> set js" for r
  proof -
    from jq.due_complete [OF assms(1) map [OF r(1)] r(2) r(3) [unfolded js]]
    have "0 \<le> limit \<and> length js = nat limit" and
      le: "\<forall>j'\<in>set js. \<forall>t'. queue_map (db_of w) (jb_ID j') = Some (j', t') \<longrightarrow> t' \<le> qu_next_attempt_at r"
      unfolding js by auto
    then show ?thesis using map by fastforce
  qed
  ultimately show ?thesis by blast
qed

definition two_job_db :: db where
  "two_job_db = snd (sql_insert_queue ''m2'' ''r'' ''{}'' 900 (snd (sql_insert_queue ''m1'' ''r'' ''{}'' 950 empty_db)))"

theorem ClaimDue_spec_witness:
  "\<exists>js. result (ClaimDue (env_answering (Responded 200)) 1) (initial_world\<lparr>db_of := two_job_db\<rparr>) = Inr js
     \<and> map jb_MessageID js = [''m2''] \<and> distinct (map jb_ID js)"
proof -
  let ?E = "env_answering (Responded 200)" and ?w = "initial_world\<lparr>db_of := two_job_db\<rparr>"
  have ok: "db_ok (db_of ?w)" by (simp add: two_job_db_def db_ok_statements)
  have r: "result (ClaimDue ?E 1) ?w = Inr [\<lparr>jb_ID = 2, jb_MessageID = ''m2'', jb_Route = ''r'',
      jb_Payload = ''{}'', jb_Attempts = 0\<rparr>]"
    by (simp add: ClaimDue_def run_simps result_db_exec env_answering_def initial_world_def
        two_job_db_def empty_db_def sql_insert_queue_def sql_due_def job_of_def sql_limit_def
        UnixMilli_def)
  from ClaimDue_spec [OF ok r] r show ?thesis by auto
qed

text \<open>A successful \<open>Enqueue\<close> is durable and immediately visible: from the moment it
  returned, a claim without a limit at any later time on the same database returns a job with
  exactly the message id, route and payload given and no attempts so far, and every job queued before
  is still there with its own due time.\<close>

lemma Enqueue_visible:
  assumes "db_ok (db_of w)" and "result (Enqueue E mid rt p) w = None"
    and "env_now E (n_now w) \<le> later"
  shows "(\<exists>j\<in>set (fst (sql_due (UnixMilli later) (-1) (db_of (after (Enqueue E mid rt p) w)))).
      jb_MessageID j = mid \<and> jb_Route j = rt \<and> jb_Payload j = p \<and> jb_Attempts j = 0)
    \<and> (\<forall>i x. queue_map (db_of w) i = Some x \<longrightarrow>
         queue_map (db_of (after (Enqueue E mid rt p) w)) i = Some x)"
proof -
  have "next_stmt_ok E (w\<lparr>n_now := Suc (n_now w)\<rparr>)"
    using assms(2) by (simp add: Enqueue_def run_simps wrap_error_None db_exec_Inl)
  then have d: "db_of (after (Enqueue E mid rt p) w)
      = snd (sql_insert_queue mid rt p (UnixMilli (env_now E (n_now w))) (db_of w))"
    by (simp add: Enqueue_def run_simps after_db_exec)
  have "UnixMilli (env_now E (n_now w)) \<le> UnixMilli later"
    using assms(3) by (simp add: UnixMilli_def zdiv_mono1)
  from jq.put_due [OF assms(1) this] jq.put_keeps [OF assms(1)] show ?thesis
    unfolding d by blast
qed

text \<open>C34: deleting messages by id on a working database reports exactly how many rows went
  away, never more than ids were given, removes those messages and every delivery row of theirs and
  nothing else, and a second deletion of the same ids finds nothing.\<close>

theorem DeleteMessages_spec:
  fixes ids :: "string list"
  assumes "db_reliable E" and "db_ok (db_of w)"
  defines "w' \<equiv> after (DeleteMessages E ids) w"
  shows "(\<exists>n. result (DeleteMessages E ids) w = Inr n
      \<and> n = int (length (messages (db_of w))) - int (length (messages (db_of w')))
      \<and> n \<le> int (length ids))
    \<and> (\<forall>r. r \<in> set (messages (db_of w')) \<longleftrightarrow> r \<in> set (messages (db_of w)) \<and> ms_id r \<notin> set ids)
    \<and> (\<forall>r. r \<in> set (deliveries (db_of w')) \<longleftrightarrow>
         r \<in> set (deliveries (db_of w)) \<and> dv_message_id r \<notin> set ids)
    \<and> queue (db_of w') = queue (db_of w) \<and> rejections (db_of w') = rejections (db_of w)
    \<and> result (DeleteMessages E ids) w' = Inr 0"
proof (cases "ids = []")
  case True
  then show ?thesis by (simp add: w'_def DeleteMessages_def)
next
  case False
  let ?d1 = "snd (sql_delete_deliveries ids (db_of w))"
  have env: "env_db_error E n = None" for n using assms(1) by (simp add: db_reliable_def)
  have w': "db_of w' = snd (sql_delete_messages ids ?d1)"
    using False assms(1) by (simp add: w'_def DeleteMessages_def after_db_exec)
  have res: "result (DeleteMessages E ids) v
      = Inr (fst (sql_delete_messages ids (snd (sql_delete_deliveries ids (db_of v)))))" for v
    using False assms(1) by (simp add: DeleteMessages_def result_db_exec after_db_exec env count_or_error_def)
  have same: "messages ?d1 = messages (db_of w)" "queue ?d1 = queue (db_of w)"
    "rejections ?d1 = rejections (db_of w)"
    by (simp_all add: sql_delete_deliveries_def)
  have frame: "deliveries (snd (sql_delete_messages ids d)) = deliveries d"
    "queue (snd (sql_delete_messages ids d)) = queue d"
    "rejections (snd (sql_delete_messages ids d)) = rejections d" for d
    by (simp_all add: sql_delete_messages_def)
  have "distinct (map ms_id (messages ?d1))" using assms(2) by (simp add: same db_ok_def)
  from ml.count_bound [OF this] have "fst (sql_delete_messages ids ?d1) \<le> int (length ids)" .
  moreover have "fst (sql_delete_messages ids (snd (sql_delete_deliveries ids (db_of w')))) = 0"
    unfolding w' by (simp add: ml.deleted_count ml.rows_deleted sql_delete_deliveries_def)
  ultimately show ?thesis
    unfolding res w' using ml.count_is_difference [of ids ?d1]
    by (auto simp: ml.deleted_gone frame same dl.deleted_gone)
qed

definition one_message_db :: db where
  "one_message_db = snd (sql_replace_message (message_row_of example_log) empty_db)"

theorem DeleteMessages_spec_witness:
  "messages (db_of (after (DeleteMessages (env_answering (Responded 200)) [''m1'', ''m1''])
     (initial_world\<lparr>db_of := one_message_db\<rparr>))) = []
   \<and> result (DeleteMessages (env_answering (Responded 200)) [''m1'', ''m1''])
     (initial_world\<lparr>db_of := one_message_db\<rparr>) = Inr 1"
proof -
  let ?w = "initial_world\<lparr>db_of := one_message_db\<rparr>"
  have m: "messages one_message_db = [message_row_of example_log]" "ms_id (message_row_of example_log) = ''m1''"
    by (simp_all add: one_message_db_def sql_replace_message_def empty_db_def message_row_of_def example_log_def)
  have "db_ok (db_of ?w)"
    by (simp add: one_message_db_def sql_replace_message_def empty_db_def db_ok_def)
  note d = DeleteMessages_spec [OF db_reliable_answering this, of "Responded 200" "[''m1'', ''m1'']"]
  let ?ms = "messages (db_of (after (DeleteMessages (env_answering (Responded 200)) [''m1'', ''m1'']) ?w))"
  have "r \<notin> set ?ms" for r
    using d [THEN conjunct2, THEN conjunct1, THEN spec, of r] m by auto
  then have gone: "?ms = []" using hd_in_set [of ?ms] by blast
  from d [THEN conjunct1] gone m show ?thesis by auto
qed

end
