(* ===== verification/Delivery.thy ===== *)
theory Delivery
  imports Payload Store
begin

text \<open>
  \<^verbatim>\<open>internal/delivery/delivery.go\<close>: one HTTP attempt, synchronous delivery, enqueueing, and the
  processing of one queued job with its retries. The concurrent worker is in \<^theory_text>\<open>Worker\<close>.

  \<^verbatim>\<open>http.NewRequest\<close>'s check of method and URL and the exchange itself are answered by the
  environment; a cancelled context or a timeout is a \<open>TransportError\<close>. The header map of a request
  is an association list under canonical keys; the configured headers are set in the order of the
  list, standing for Go's unspecified map order.
\<close>

section \<open>Request headers\<close>

definition token_byte :: "char \<Rightarrow> bool" where
  "token_byte c \<longleftrightarrow>
     (let b = byte c in
      48 \<le> b \<and> b \<le> 57 \<or> 65 \<le> b \<and> b \<le> 90 \<or> 97 \<le> b \<and> b \<le> 122
      \<or> c \<in> set ''!#$%&*+-.^_|~'' \<or> b = 39 \<or> b = 96)"

fun canonical_bytes :: "bool \<Rightarrow> string \<Rightarrow> string" where
  "canonical_bytes upper [] = []"
| "canonical_bytes upper (c # cs) =
     (let b = byte c;
          c' = (if upper \<and> 97 \<le> b \<and> b \<le> 122 then char_of (b - 32)
                else if \<not> upper \<and> 65 \<le> b \<and> b \<le> 90 then char_of (b + 32) else c)
      in c' # canonical_bytes (c' = CHR ''-'') cs)"

definition CanonicalMIMEHeaderKey :: "string \<Rightarrow> string" where
  "CanonicalMIMEHeaderKey s = (if list_all token_byte s then canonical_bytes True s else s)"

definition Header_Set :: "string \<Rightarrow> string \<Rightarrow> strmap \<Rightarrow> strmap" where
  "Header_Set k v h = AList.update (CanonicalMIMEHeaderKey k) v h"

section \<open>Operations\<close>

record deliverer =
  dv_cfg :: delivery
  dv_routes :: "string \<Rightarrow> route option"
  dv_store :: store

definition errStr :: "goerror \<Rightarrow> string" where
  "errStr err = (case err of None \<Rightarrow> [] | Some e \<Rightarrow> e)"

definition request_headers :: "route \<Rightarrow> bytes \<Rightarrow> strmap" where
  "request_headers route body =
     (let h1 = Header_Set ''Content-Type'' ''application/json'' [];
          h2 = Header_Set ''User-Agent'' ''smtp-bridge'' h1;
          h3 = Header_Set ''X-SMTP-Bridge-Route'' (rt_name route) h2;
          secret = wh_secret (rt_webhook route);
          h4 = (if secret \<noteq> []
                then Header_Set ''X-SMTP-Bridge-Signature''
                       (''sha256='' @ hex_encode (hmac_sha256 secret body)) h3
                else h3)
      in fold (\<lambda>(k, v). Header_Set k v) (wh_headers (rt_webhook route)) h4)"

definition webhook_request :: "route \<Rightarrow> bytes \<Rightarrow> http_request" where
  "webhook_request route body =
     \<lparr>hq_method = wh_method (rt_webhook route), hq_url = wh_url (rt_webhook route),
      hq_headers = request_headers route body, hq_body = body\<rparr>"

definition attempt :: "env \<Rightarrow> route \<Rightarrow> bytes \<Rightarrow> (world, int \<times> goerror) state" where
  "attempt E route body =
     (case env_request_error E (wh_method (rt_webhook route)) (wh_url (rt_webhook route)) of
        Some err \<Rightarrow> State_Monad.return (0, Some err)
      | None \<Rightarrow> do {
          resp \<leftarrow> client_Do E (webhook_request route body);
          State_Monad.return
            (case resp of
               TransportError err \<Rightarrow> (0, Some err)
             | Responded code \<Rightarrow>
                 if code < 200 \<or> 300 \<le> code
                 then (code, Some (''webhook returned status '' @ Itoa code))
                 else (code, None))
        })"

definition DeliverSync ::
  "env \<Rightarrow> deliverer \<Rightarrow> route \<Rightarrow> payload \<Rightarrow> (world, int \<times> goerror) state" where
  "DeliverSync E d route p =
     (case Marshal E p of
        Inl err \<Rightarrow> State_Monad.return (0, Some err)
      | Inr body \<Rightarrow> do {
          ce \<leftarrow> attempt E route body;
          _ \<leftarrow> LogDelivery E (dv_store d) (pl_message_id p) (rt_name route) 1 (fst ce)
                 (snd ce = None) (errStr (snd ce));
          State_Monad.return ce
        })"

definition EnqueuePayload :: "env \<Rightarrow> payload \<Rightarrow> (world, goerror) state" where
  "EnqueuePayload E p =
     (case Marshal E p of
        Inl err \<Rightarrow> State_Monad.return (Some err)
      | Inr body \<Rightarrow> Enqueue E (pl_message_id p) (pl_route p) body)"

text \<open>\<^verbatim>\<open>1 << k\<close> on an \<^verbatim>\<open>int64\<close>: a negative count panics, a count from 64 up shifts the bit out.\<close>

definition shl1 :: "int \<Rightarrow> int option" where
  "shl1 k = (if k < 0 then None else if 64 \<le> k then Some 0 else Some (wrap64 (2 ^ nat k)))"

text \<open>The delay after the failure of an attempt: \<^verbatim>\<open>RetryBackoff * time.Duration(1<<(attempt-1))\<close>, in
  64-bit arithmetic.\<close>

definition retry_backoff :: "int \<Rightarrow> int \<Rightarrow> int option" where
  "retry_backoff base k = map_option (\<lambda>m. wrap64 (base * m)) (shl1 (wrap64 (k - 1)))"

datatype goroutine_exit = Finished | Panicked

text \<open>\<open>process\<close> is three atomic pieces: the HTTP attempt, the delivery log entry, and what is done with
  the job.\<close>

definition job_attempt :: "job \<Rightarrow> int" where
  "job_attempt j = wrap64 (jb_Attempts j + 1)"

definition process_log :: "env \<Rightarrow> deliverer \<Rightarrow> job \<Rightarrow> int \<Rightarrow> goerror \<Rightarrow> (world, goerror) state" where
  "process_log E d j code err =
     LogDelivery E (dv_store d) (jb_MessageID j) (jb_Route j) (job_attempt j) code (err = None)
       (errStr err)"

definition process_settle ::
  "env \<Rightarrow> deliverer \<Rightarrow> job \<Rightarrow> goerror \<Rightarrow> (world, goroutine_exit) state" where
  "process_settle E d j err =
     (if err = None then do {
        _ \<leftarrow> CompleteJob E (jb_ID j);
        State_Monad.return Finished
      }
      else if dl_max_retries (dv_cfg d) \<le> job_attempt j then do {
        _ \<leftarrow> CompleteJob E (jb_ID j);
        State_Monad.return Finished
      }
      else (case retry_backoff (dl_retry_backoff (dv_cfg d)) (job_attempt j) of
              None \<Rightarrow> State_Monad.return Panicked
            | Some backoff \<Rightarrow> do {
                now \<leftarrow> time_Now E;
                _ \<leftarrow> RescheduleJob E (jb_ID j) (job_attempt j) (now + backoff);
                State_Monad.return Finished
              }))"

definition process :: "env \<Rightarrow> deliverer \<Rightarrow> job \<Rightarrow> (world, goroutine_exit) state" where
  "process E d j =
     (case dv_routes d (jb_Route j) of
        None \<Rightarrow> do {
          _ \<leftarrow> CompleteJob E (jb_ID j);
          State_Monad.return Finished
        }
      | Some route \<Rightarrow> do {
          ce \<leftarrow> attempt E route (jb_Payload j);
          _ \<leftarrow> process_log E d j (fst ce) (snd ce);
          process_settle E d j (snd ce)
        })"

section \<open>Frames\<close>

lemma keeps_queue_attempt [intro!, simp]:
  "keeps queue_part (attempt E rt b)" "keeps message_part (attempt E rt b)"
  "keeps rejection_part (attempt E rt b)" "keeps db_of (attempt E rt b)"
  by (auto simp: keeps_def attempt_def run_simps part_defs split: option.splits)

lemma keeps_queue_process_log [intro!, simp]:
  "keeps queue_part (process_log E d j c e)" "keeps http_sent (process_log E d j c e)"
  "keeps message_part (process_log E d j c e)"
  by (simp_all add: process_log_def)

lemma keeps_DeliverSync [intro!, simp]:
  "keeps queue_part (DeliverSync E d rt p)" "keeps message_part (DeliverSync E d rt p)"
  by (auto simp: DeliverSync_def split: sum.splits intro!: keeps_bind)

lemma keeps_EnqueuePayload [intro!, simp]:
  "keeps http_sent (EnqueuePayload E p)" "keeps message_part (EnqueuePayload E p)"
  by (auto simp: EnqueuePayload_def split: sum.splits)

lemma preserves_db_time [intro!, simp]:
  "preserves_db (time_Now E)" "preserves_db (new_uuid E)" "preserves_db (client_Do E req)"
  by (simp_all add: preserves_keeps)

lemma preserves_db_attempt [intro!, simp]: "preserves_db (attempt E rt b)"
  by (rule preserves_keeps) simp

lemma preserves_db_delivery [intro!, simp]:
  "preserves_db (process_log E d j c e)" "preserves_db (process_settle E d j e)"
  "preserves_db (DeliverSync E d rt p)" "preserves_db (EnqueuePayload E p)"
  by (auto simp: process_log_def process_settle_def DeliverSync_def EnqueuePayload_def
      split: option.splits sum.splits intro!: preserves_bind)

lemma preserves_db_process [intro!, simp]: "preserves_db (process E d j)"
  by (auto simp: process_def split: option.splits intro!: preserves_bind)

section \<open>One attempt\<close>

text \<open>Whether an outcome counts as delivered.\<close>

fun success_outcome :: "http_outcome \<Rightarrow> bool" where
  "success_outcome (Responded code) \<longleftrightarrow> 200 \<le> code \<and> code < 300"
| "success_outcome (TransportError _) \<longleftrightarrow> False"

lemma attempt_sends:
  "env_request_error E (wh_method (rt_webhook rt)) (wh_url (rt_webhook rt)) = None \<Longrightarrow>
     http_sent (after (attempt E rt b) w)
       = http_sent w @ [(webhook_request rt b, env_client_do E (n_http w) (webhook_request rt b))]"
  by (simp add: attempt_def run_simps)

lemma attempt_success:
  "snd (result (attempt E rt b) w) = None \<longleftrightarrow>
     env_request_error E (wh_method (rt_webhook rt)) (wh_url (rt_webhook rt)) = None
     \<and> success_outcome (env_client_do E (n_http w) (webhook_request rt b))"
  by (auto simp: attempt_def run_simps split: option.splits http_outcome.splits)

lemma attempt_success_sent:
  "snd (result (attempt E rt b) w) = None \<Longrightarrow>
     \<exists>out. success_outcome out \<and> (webhook_request rt b, out) \<in> set (http_sent (after (attempt E rt b) w))"
  by (auto simp: attempt_success attempt_sends)

lemma attempt_http_mono: "set (http_sent w) \<subseteq> set (http_sent (after (attempt E rt b) w))"
  by (auto simp: attempt_def run_simps split: option.splits)

lemma attempt_at_most_one:
  "length (http_sent (after (attempt E rt b) w)) \<le> Suc (length (http_sent w))"
  by (auto simp: attempt_def run_simps split: option.splits)

lemma Header_Set_lookup:
  "map_of (Header_Set k v h) k' = (if k' = CanonicalMIMEHeaderKey k then Some v else map_of h k')"
  by (simp add: Header_Set_def update_conv)

lemma fold_Header_Set_other:
  "\<forall>(a, b)\<in>set kvs. CanonicalMIMEHeaderKey a \<noteq> k \<Longrightarrow>
     map_of (fold (\<lambda>(k, v). Header_Set k v) kvs h) k = map_of h k"
  by (induction kvs arbitrary: h) (auto simp: Header_Set_lookup)

lemma canonical_known_keys:
  "CanonicalMIMEHeaderKey ''X-SMTP-Bridge-Signature'' = ''X-Smtp-Bridge-Signature''"
  "CanonicalMIMEHeaderKey ''X-SMTP-Bridge-Route'' = ''X-Smtp-Bridge-Route''"
  "CanonicalMIMEHeaderKey ''Content-Type'' = ''Content-Type''"
  "CanonicalMIMEHeaderKey ''User-Agent'' = ''User-Agent''"
  by code_simp+

section \<open>Settling a job\<close>

text \<open>What happens to a job: it is removed, or postponed with one more attempt.\<close>

definition job_done :: "deliverer \<Rightarrow> job \<Rightarrow> goerror \<Rightarrow> bool" where
  "job_done d j err \<longleftrightarrow> err = None \<or> dl_max_retries (dv_cfg d) \<le> job_attempt j"

lemma settle_done:
  "job_done d j err \<Longrightarrow>
     result (process_settle E d j err) w = Finished
     \<and> after (process_settle E d j err) w = after (CompleteJob E (jb_ID j)) w"
  by (auto simp: process_settle_def job_done_def)

lemma settle_retry:
  "\<not> job_done d j err \<Longrightarrow> retry_backoff (dl_retry_backoff (dv_cfg d)) (job_attempt j) = Some b \<Longrightarrow>
     result (process_settle E d j err) w = Finished
     \<and> after (process_settle E d j err) w =
         after (RescheduleJob E (jb_ID j) (job_attempt j) (env_now E (n_now w) + b))
           (w\<lparr>n_now := Suc (n_now w)\<rparr>)"
  by (auto simp: process_settle_def job_done_def run_simps)

lemma settle_panic:
  "\<not> job_done d j err \<Longrightarrow> retry_backoff (dl_retry_backoff (dv_cfg d)) (job_attempt j) = None \<Longrightarrow>
     result (process_settle E d j err) w = Panicked \<and> after (process_settle E d j err) w = w"
  by (auto simp: process_settle_def job_done_def)

lemma CompleteJob_db:
  "db_of (after (CompleteJob E i) w) =
     (if next_stmt_ok E w then snd (sql_delete_job i (db_of w)) else db_of w)"
  by (simp add: CompleteJob_def after_db_exec)

lemma RescheduleJob_db:
  "db_of (after (RescheduleJob E i n t) w) =
     (if next_stmt_ok E w then snd (sql_update_job i n (UnixMilli t) (db_of w)) else db_of w)"
  by (simp add: RescheduleJob_def after_db_exec)

lemma retry_backoff_None: "retry_backoff base k = None \<longleftrightarrow> wrap64 (k - 1) < 0"
  by (auto simp: retry_backoff_def shl1_def)

lemma queue_map_part: "queue_part w = queue_part w' \<Longrightarrow> queue_map (db_of w) = queue_map (db_of w')"
  by (simp add: queue_map_def queue_part_def fun_eq_iff)

lemma queue_map_keeps: "keeps queue_part m \<Longrightarrow> queue_map (db_of (after m w)) = queue_map (db_of w)"
  by (rule queue_map_part) (simp add: keepsD)

text \<open>The queue after \<open>process_settle\<close>, whatever the statements do: every other job is untouched.\<close>

lemma settle_other_job:
  assumes "db_ok (db_of w)" "i \<noteq> jb_ID j"
  shows "queue_map (db_of (after (process_settle E d j err) w)) i = queue_map (db_of w) i"
proof (cases "job_done d j err")
  case True
  with assms show ?thesis by (simp add: settle_done CompleteJob_db jq.remove_keeps)
next
  case False
  show ?thesis
  proof (cases "retry_backoff (dl_retry_backoff (dv_cfg d)) (job_attempt j)")
    case None
    with False show ?thesis by (simp add: settle_panic)
  next
    case (Some b)
    with False assms show ?thesis by (simp add: settle_retry RescheduleJob_db jq.postpone_keeps)
  qed
qed

lemma process_other_job:
  assumes "db_ok (db_of w)" "i \<noteq> jb_ID j"
  shows "queue_map (db_of (after (process E d j) w)) i = queue_map (db_of w) i"
proof (cases "dv_routes d (jb_Route j)")
  case None
  with assms show ?thesis by (simp add: process_def CompleteJob_db jq.remove_keeps)
next
  case (Some rt)
  let ?w1 = "after (attempt E rt (jb_Payload j)) w"
  let ?ce = "result (attempt E rt (jb_Payload j)) w"
  let ?w2 = "after (process_log E d j (fst ?ce) (snd ?ce)) ?w1"
  have "db_ok (db_of ?w2)"
    using assms(1) preservesD [OF preserves_db_attempt] preservesD [OF preserves_db_delivery(1)] by blast
  then have "queue_map (db_of (after (process_settle E d j (snd ?ce)) ?w2)) i = queue_map (db_of ?w2) i"
    using assms(2) by (rule settle_other_job)
  also have "\<dots> = queue_map (db_of w) i" by (simp add: queue_map_keeps)
  finally show ?thesis using Some by (simp add: process_def)
qed

section \<open>A job over its retries\<close>

lemma queue_map_ID: "db_ok d \<Longrightarrow> queue_map d i = Some (j, t) \<Longrightarrow> jb_ID j = i"
  by (auto simp: queue_map_Some)

lemma complete_removes:
  "db_reliable E \<Longrightarrow> db_ok (db_of w) \<Longrightarrow> queue_map (db_of (after (CompleteJob E i) w)) i = None"
  by (simp add: CompleteJob_db jq.jobs_remove)

lemma settle_own_job:
  assumes "db_reliable E" "db_ok (db_of w)" "queue_map (db_of w) (jb_ID j) = Some (j, t)"
    and "0 \<le> jb_Attempts j" "int64 (jb_Attempts j + 1)"
  shows "result (process_settle E d j err) w = Finished
    \<and> (if err = None \<or> dl_max_retries (dv_cfg d) \<le> jb_Attempts j + 1
       then queue_map (db_of (after (process_settle E d j err) w)) (jb_ID j) = None
       else \<exists>b. retry_backoff (dl_retry_backoff (dv_cfg d)) (jb_Attempts j + 1) = Some b
         \<and> queue_map (db_of (after (process_settle E d j err) w)) (jb_ID j) =
             Some (j\<lparr>jb_Attempts := jb_Attempts j + 1\<rparr>, UnixMilli (env_now E (n_now w) + b)))"
proof (cases "job_done d j err")
  case True
  with assms show ?thesis
    by (simp add: settle_done complete_removes) (simp add: job_done_def job_attempt_def)
next
  case False
  have "int64 (jb_Attempts j)" using assms(4,5) by (simp add: int64_def)
  then have "retry_backoff (dl_retry_backoff (dv_cfg d)) (jb_Attempts j + 1) \<noteq> None"
    using assms(4) by (simp add: retry_backoff_None)
  then obtain b where "retry_backoff (dl_retry_backoff (dv_cfg d)) (jb_Attempts j + 1) = Some b"
    by blast
  with False assms show ?thesis
    by (simp add: settle_retry RescheduleJob_db jq.jobs_postpone job_attempt_def)
      (auto simp: job_done_def job_attempt_def)
qed

text \<open>The clock before the job is settled: the delivery log reads it once.\<close>

lemma attempt_clock: "n_now (after (attempt E rt body) w) = n_now w"
  by (simp add: attempt_def run_simps split: option.split)

lemma process_log_clock:
  "n_now (after (process_log E d j code err) w) = n_now w + (if st_logContent (dv_store d) then 1 else 0)"
  by (simp add: process_log_def LogDelivery_def run_simps db_exec_def Let_def case_prod_beta
      split: option.split)

definition settled_at :: "env \<Rightarrow> deliverer \<Rightarrow> world \<Rightarrow> int" where
  "settled_at E d w = env_now E (n_now w + (if st_logContent (dv_store d) then 1 else 0))"

lemma process_own_job:
  assumes "db_reliable E" "db_ok (db_of w)" "queue_map (db_of w) (jb_ID j) = Some (j, t)"
    and "0 \<le> jb_Attempts j" "int64 (jb_Attempts j + 1)" "dv_routes d (jb_Route j) = Some rt"
  shows "result (process E d j) w = Finished
    \<and> (if snd (result (attempt E rt (jb_Payload j)) w) = None
         \<or> dl_max_retries (dv_cfg d) \<le> jb_Attempts j + 1
       then queue_map (db_of (after (process E d j) w)) (jb_ID j) = None
       else \<exists>b. retry_backoff (dl_retry_backoff (dv_cfg d)) (jb_Attempts j + 1) = Some b
         \<and> queue_map (db_of (after (process E d j) w)) (jb_ID j) =
             Some (j\<lparr>jb_Attempts := jb_Attempts j + 1\<rparr>, UnixMilli (settled_at E d w + b)))"
proof -
  let ?w1 = "after (attempt E rt (jb_Payload j)) w"
  let ?ce = "result (attempt E rt (jb_Payload j)) w"
  let ?w2 = "after (process_log E d j (fst ?ce) (snd ?ce)) ?w1"
  have ok: "db_ok (db_of ?w2)"
    using assms(2) preservesD [OF preserves_db_attempt] preservesD [OF preserves_db_delivery(1)] by blast
  have "queue_map (db_of ?w2) (jb_ID j) = Some (j, t)"
    using assms(3) by (simp add: queue_map_keeps)
  moreover have "env_now E (n_now ?w2) = settled_at E d w"
    by (simp only: settled_at_def process_log_clock attempt_clock)
  ultimately show ?thesis
    using settle_own_job [OF assms(1) ok _ assms(4,5), of t d "snd ?ce"] assms(6)
    by (auto simp: process_def split: if_splits)
qed

lemma process_unknown_route:
  assumes "db_reliable E" "db_ok (db_of w)" "dv_routes d (jb_Route j) = None"
  shows "result (process E d j) w = Finished
    \<and> queue_map (db_of (after (process E d j) w)) (jb_ID j) = None
    \<and> http_sent (after (process E d j) w) = http_sent w"
  using assms by (simp add: process_def complete_removes keepsD)

lemma process_sends_at_most_one:
  "length (http_sent (after (process E d j) w)) \<le> Suc (length (http_sent w))"
proof -
  have settle: "keeps http_sent (process_settle E d j e)" for e
    by (auto simp: process_settle_def split: option.splits intro!: keeps_bind)
  show ?thesis
    using attempt_at_most_one by (auto simp: process_def keepsD [OF settle] keepsD split: option.splits)
qed

text \<open>One more processing of the job with id \<open>i\<close>, if it is still queued.\<close>

definition process_round :: "env \<Rightarrow> deliverer \<Rightarrow> int \<Rightarrow> world \<Rightarrow> world" where
  "process_round E d i w =
     (case queue_map (db_of w) i of None \<Rightarrow> w | Some (j, _) \<Rightarrow> after (process E d j) w)"

lemma process_round_ok: "db_ok (db_of w) \<Longrightarrow> db_ok (db_of (process_round E d i w))"
  using preservesD [OF preserves_db_process] by (auto simp: process_round_def split: option.splits)

lemma process_round_sends: "length (http_sent (process_round E d i w)) \<le> Suc (length (http_sent w))"
  using process_sends_at_most_one by (auto simp: process_round_def le_SucI split: option.splits)

lemma process_round_step:
  assumes "db_reliable E" "db_ok (db_of w)" "queue_map (db_of w) i = Some (j, t)"
    and "0 \<le> jb_Attempts j" "int64 (jb_Attempts j + 1)"
  shows "queue_map (db_of (process_round E d i w)) i = None
    \<or> (jb_Attempts j + 1 < dl_max_retries (dv_cfg d) \<and>
        (\<exists>t'. queue_map (db_of (process_round E d i w)) i = Some (j\<lparr>jb_Attempts := jb_Attempts j + 1\<rparr>, t')))"
proof -
  have i: "jb_ID j = i" using assms(2,3) by (rule queue_map_ID)
  show ?thesis
  proof (cases "dv_routes d (jb_Route j)")
    case None
    with assms i process_unknown_route [of E w d j] show ?thesis by (simp add: process_round_def)
  next
    case (Some rt)
    with process_own_job [OF assms(1,2) _ assms(4,5) Some] assms(3) i show ?thesis
      by (auto simp: process_round_def split: if_splits)
  qed
qed

text \<open>After \<open>k\<close> rounds the job is gone, or it has exactly \<open>k\<close> attempts and more are allowed.\<close>

lemma rounds_invariant:
  assumes "db_reliable E" "db_ok (db_of w)" "queue_map (db_of w) i = Some (j, t)"
    and "jb_Attempts j = 0" "int64 (int k)"
  shows "db_ok (db_of ((process_round E d i ^^ k) w))
    \<and> length (http_sent ((process_round E d i ^^ k) w)) \<le> length (http_sent w) + k
    \<and> (queue_map (db_of ((process_round E d i ^^ k) w)) i = None
       \<or> (k = 0 \<or> int k < dl_max_retries (dv_cfg d))
         \<and> (\<exists>t'. queue_map (db_of ((process_round E d i ^^ k) w)) i = Some (j\<lparr>jb_Attempts := int k\<rparr>, t')))"
  using assms(5)
proof (induction k)
  case 0
  have "j\<lparr>jb_Attempts := 0\<rparr> = j" using assms(4) by simp
  with assms show ?case by simp
next
  case (Suc k)
  let ?v = "(process_round E d i ^^ k) w"
  have v: "(process_round E d i ^^ Suc k) w = process_round E d i ?v" by simp
  from Suc have ok: "db_ok (db_of ?v)" and len: "length (http_sent ?v) \<le> length (http_sent w) + k"
    and q: "queue_map (db_of ?v) i = None
       \<or> (\<exists>t'. queue_map (db_of ?v) i = Some (j\<lparr>jb_Attempts := int k\<rparr>, t'))"
    by (auto simp: int64_def)
  from q have "queue_map (db_of (process_round E d i ?v)) i = None
      \<or> int (Suc k) < dl_max_retries (dv_cfg d)
        \<and> (\<exists>t'. queue_map (db_of (process_round E d i ?v)) i = Some (j\<lparr>jb_Attempts := int (Suc k)\<rparr>, t'))"
  proof
    assume "queue_map (db_of ?v) i = None"
    then show ?thesis by (simp add: process_round_def)
  next
    assume "\<exists>t'. queue_map (db_of ?v) i = Some (j\<lparr>jb_Attempts := int k\<rparr>, t')"
    then obtain t' where t': "queue_map (db_of ?v) i = Some (j\<lparr>jb_Attempts := int k\<rparr>, t')" ..
    from process_round_step [OF assms(1) ok t', of d] Suc.prems show ?thesis
      by (auto simp: add.commute)
  qed
  then show ?case
    unfolding v using process_round_ok [OF ok] process_round_sends [of E d i ?v] len by auto
qed

section \<open>Properties\<close>

text \<open>An attempt succeeds exactly when the request could be built and the webhook answered
  with a 2xx status; it sends at most one request, carrying exactly the given body to the route's URL
  with the route's method, none when the request could not be built, and it leaves the database alone.
  The status reported is the webhook's, or 0 when there was no answer.\<close>

lemma attempt_contract:
  fixes E :: env and rt :: route and body :: bytes and w :: world
  defines "refused \<equiv> env_request_error E (wh_method (rt_webhook rt)) (wh_url (rt_webhook rt))"
    and "req \<equiv> webhook_request rt body" and "w' \<equiv> after (attempt E rt body) w"
    and "out \<equiv> env_client_do E (n_http w) (webhook_request rt body)"
  shows "(snd (result (attempt E rt body) w) = None \<longleftrightarrow> refused = None \<and> success_outcome out)
    \<and> fst (result (attempt E rt body) w) =
        (case out of Responded code \<Rightarrow> if refused = None then code else 0 | TransportError _ \<Rightarrow> 0)
    \<and> http_sent w' = http_sent w @ (if refused = None then [(req, out)] else [])
    \<and> hq_body req = body \<and> hq_url req = wh_url (rt_webhook rt) \<and> hq_method req = wh_method (rt_webhook rt)
    \<and> db_of w' = db_of w"
  by (auto simp: refused_def req_def w'_def out_def attempt_def webhook_request_def run_simps
      split: option.splits http_outcome.splits)

text \<open>C26: the webhook request of a body: it goes to the route's URL by the route's method and carries
  exactly that body, as JSON, with the route's name; with a secret it carries the signature header, its
  value the hexadecimal HMAC-SHA256 of the very body it carries, in 71 characters, and without one no
  signature header. The route's own headers are added, the last one of a name winning, and can replace
  any of these but are assumed not to name the signature or the route header under some spelling.\<close>

theorem webhook_signature:
  fixes rt :: route and body :: bytes
  defines "req \<equiv> webhook_request rt body" and "secret \<equiv> wh_secret (rt_webhook rt)"
    and "own \<equiv> map (\<lambda>(k, v). (CanonicalMIMEHeaderKey k, v)) (wh_headers (rt_webhook rt))"
  assumes "\<forall>(k, v)\<in>set (wh_headers (rt_webhook rt)).
    CanonicalMIMEHeaderKey k \<notin> {''X-Smtp-Bridge-Signature'', ''X-Smtp-Bridge-Route''}"
  shows "hq_body req = body \<and> hq_method req = wh_method (rt_webhook rt) \<and> hq_url req = wh_url (rt_webhook rt)
    \<and> map_of (hq_headers req) ''X-Smtp-Bridge-Signature'' =
        (if secret = [] then None else Some (''sha256='' @ hex_encode (hmac_sha256 secret (hq_body req))))
    \<and> length (''sha256='' @ hex_encode (hmac_sha256 secret (hq_body req))) = 71
    \<and> map_of (hq_headers req) ''X-Smtp-Bridge-Route'' = Some (rt_name rt)
    \<and> (\<forall>k. k \<notin> {''X-Smtp-Bridge-Signature'', ''X-Smtp-Bridge-Route''} \<longrightarrow>
         map_of (hq_headers req) k =
           (case map_of (rev own) k of
              Some v \<Rightarrow> Some v
            | None \<Rightarrow> if k = ''Content-Type'' then Some ''application/json''
                else if k = ''User-Agent'' then Some ''smtp-bridge'' else None))"
proof -
  have other: "map_of (fold (\<lambda>(k, v). Header_Set k v) (wh_headers (rt_webhook rt)) h) k = map_of h k"
    if "k \<in> {''X-Smtp-Bridge-Signature'', ''X-Smtp-Bridge-Route''}" for h k
    using assms(4) that by (intro fold_Header_Set_other) auto
  have own: "map_of (fold (\<lambda>(k, v). Header_Set k v) kvs h) k =
      (case map_of (rev (map (\<lambda>(k, v). (CanonicalMIMEHeaderKey k, v)) kvs)) k of
         Some v \<Rightarrow> Some v | None \<Rightarrow> map_of h k)" for kvs h k
    by (induction kvs arbitrary: h)
      (auto simp: Header_Set_lookup map_add_def split: option.splits)
  show ?thesis
    by (simp add: req_def secret_def webhook_request_def request_headers_def Let_def other
        Header_Set_lookup canonical_known_keys) (auto simp: own own_def Header_Set_lookup canonical_known_keys
        split: option.splits)
qed

definition signed_route :: route where
  "signed_route =
     \<lparr>rt_name = ''app'', rt_username = ''alice'', rt_password = ''s3cret'', rt_password_bcrypt = [],
      rt_match = \<lparr>mt_rcpt = [], mt_rcpt_domain = ''h.example'', mt_rcpt_localpart = []\<rparr>,
      rt_webhook = \<lparr>wh_url = ''http://h'', wh_method = ''POST'', wh_secret = ''key'',
                     wh_headers = [(''Authorization'', ''Bearer x'')]\<rparr>,
      rt_mode = [],
      rt_include = \<lparr>in_raw = False, in_attachments = True, in_max_attachment_bytes = 0\<rparr>\<rparr>"

theorem webhook_signature_witness:
  "map_of (hq_headers (webhook_request signed_route ''{}'')) ''X-Smtp-Bridge-Signature''
     = Some (''sha256='' @ hex_encode (hmac_sha256 ''key'' ''{}''))"
proof -
  have "CanonicalMIMEHeaderKey ''Authorization'' = ''Authorization''" by code_simp
  then have "\<forall>(k, v)\<in>set (wh_headers (rt_webhook signed_route)).
      CanonicalMIMEHeaderKey k \<notin> {''X-Smtp-Bridge-Signature'', ''X-Smtp-Bridge-Route''}"
    by (simp add: signed_route_def)
  from webhook_signature [OF this, of "''{}''"] show ?thesis by (simp add: signed_route_def)
qed

text \<open>C17: what one processing of a queued job does on a working database, for a job of a known
  route: it always finishes; the job leaves the queue exactly when the attempt succeeded or was the
  last one allowed, and otherwise it stays with one more attempt, due the backoff of that attempt
  after the clock reading that follows the failure (the first, or the second when the delivery log
  reads the clock before it); no other job of the queue is touched.\<close>

theorem process_outcome:
  assumes "db_reliable E" "db_ok (db_of w)" "queue_map (db_of w) (jb_ID j) = Some (j, t)"
    and "0 \<le> jb_Attempts j" "int64 (jb_Attempts j + 1)" "dv_routes d (jb_Route j) = Some rt"
  defines "w' \<equiv> after (process E d j) w"
  shows "result (process E d j) w = Finished
    \<and> (if snd (result (attempt E rt (jb_Payload j)) w) = None
         \<or> dl_max_retries (dv_cfg d) \<le> jb_Attempts j + 1
       then queue_map (db_of w') (jb_ID j) = None
       else \<exists>b. retry_backoff (dl_retry_backoff (dv_cfg d)) (jb_Attempts j + 1) = Some b
         \<and> queue_map (db_of w') (jb_ID j) = Some (j\<lparr>jb_Attempts := jb_Attempts j + 1\<rparr>,
             UnixMilli (env_now E (n_now w + (if st_logContent (dv_store d) then 1 else 0)) + b)))
    \<and> (\<forall>i. i \<noteq> jb_ID j \<longrightarrow> queue_map (db_of w') i = queue_map (db_of w) i)"
  unfolding w'_def settled_at_def [symmetric]
  using process_own_job [OF assms(1-6)] process_other_job [OF assms(2)] by blast

definition example_deliverer :: "int \<Rightarrow> deliverer" where
  "example_deliverer retries =
     \<lparr>dv_cfg = \<lparr>dl_default_mode = ''async'', dl_timeout = 30 * second, dl_max_retries = retries,
                dl_retry_backoff = 10 * second, dl_concurrency = 4\<rparr>,
      dv_routes = (\<lambda>n. if n = ''app'' then Some signed_route else None),
      dv_store = \<lparr>st_logContent = True, st_logRejections = True\<rparr>\<rparr>"

definition one_job_world :: world where
  "one_job_world = initial_world\<lparr>db_of := snd (sql_insert_queue ''m1'' ''app'' ''{}'' 900 empty_db)\<rparr>"

definition the_job :: job where
  "the_job = \<lparr>jb_ID = 1, jb_MessageID = ''m1'', jb_Route = ''app'', jb_Payload = ''{}'', jb_Attempts = 0\<rparr>"

lemma one_job_world_facts:
  "db_ok (db_of one_job_world)" "queue_map (db_of one_job_world) 1 = Some (the_job, 900)"
  "dv_routes (example_deliverer n) (jb_Route the_job) = Some signed_route"
  "dv_cfg (example_deliverer n) = \<lparr>dl_default_mode = ''async'', dl_timeout = 30 * second,
     dl_max_retries = n, dl_retry_backoff = 10 * second, dl_concurrency = 4\<rparr>"
  by (simp_all add: one_job_world_def db_ok_def queue_map_def sql_insert_queue_def empty_db_def
      the_job_def job_of_def example_deliverer_def)

theorem process_outcome_witness:
  "queue_map (db_of (after (process (env_answering (Responded 200)) (example_deliverer 3) the_job)
      one_job_world)) 1 = None"
proof -
  let ?E = "env_answering (Responded 200)"
  have id: "jb_ID the_job = 1" "jb_Attempts the_job = 0" by (simp_all add: the_job_def)
  have "snd (result (attempt ?E signed_route (jb_Payload the_job)) one_job_world) = None"
    by (simp add: attempt_success env_answering_def)
  with process_outcome [of ?E one_job_world the_job 900 "example_deliverer 3" signed_route]
  show ?thesis by (simp add: one_job_world_facts id int64_def)
qed

text \<open>C18: retrying ends. A freshly queued job, processed again and again on a working
  database, has left the queue after at most \<open>max_retries\<close> processings (one, when that is not
  positive), and no more HTTP requests than that were sent for it.\<close>

theorem retries_bounded:
  assumes "db_reliable E" "db_ok (db_of w)" "queue_map (db_of w) i = Some (j, t)"
    and "jb_Attempts j = 0" "int64 (dl_max_retries (dv_cfg d))"
  defines "n \<equiv> nat (max 1 (dl_max_retries (dv_cfg d)))"
  shows "queue_map (db_of ((process_round E d i ^^ n) w)) i = None
    \<and> length (http_sent ((process_round E d i ^^ n) w)) \<le> length (http_sent w) + n"
proof -
  have "int64 (int n)" using assms(5) by (auto simp: n_def int64_def)
  moreover have "n \<noteq> 0" "\<not> int n < dl_max_retries (dv_cfg d)" by (auto simp: n_def)
  ultimately show ?thesis using rounds_invariant [OF assms(1-4), of n d] by blast
qed

theorem retries_bounded_witness:
  "queue_map (db_of ((process_round (env_answering (Responded 500)) (example_deliverer 3) 1 ^^ 3)
      one_job_world)) 1 = None"
proof -
  have "nat (max 1 3) = (3::nat)" by simp
  with retries_bounded [OF db_reliable_answering one_job_world_facts(1,2),
      of "example_deliverer 3" "Responded 500"]
  show ?thesis by (simp add: one_job_world_facts the_job_def int64_def)
qed

text \<open>C19: a failing job is not given up early: while the webhook keeps failing, after \<open>k\<close>
  processings with \<open>k\<close> below \<open>max_retries\<close> the job is still queued with its payload and
  exactly \<open>k\<close> attempts.\<close>

theorem no_early_giving_up:
  assumes "db_reliable E" "db_ok (db_of w)" "queue_map (db_of w) i = Some (j, t)"
    and "jb_Attempts j = 0" "int64 (dl_max_retries (dv_cfg d))"
    and "dv_routes d (jb_Route j) = Some rt"
    and "\<And>n req. \<not> success_outcome (env_client_do E n req)"
    and "int k < dl_max_retries (dv_cfg d)"
  shows "\<exists>t'. queue_map (db_of ((process_round E d i ^^ k) w)) i = Some (j\<lparr>jb_Attempts := int k\<rparr>, t')"
  using assms(8)
proof (induction k)
  case 0
  have "j\<lparr>jb_Attempts := 0\<rparr> = j" using assms(4) by simp
  with assms(3) show ?case by simp
next
  case (Suc k)
  let ?v = "(process_round E d i ^^ k) w" and ?j = "j\<lparr>jb_Attempts := int k\<rparr>"
  from Suc obtain t' where q: "queue_map (db_of ?v) i = Some (?j, t')" by auto
  have "int64 (int k)" "int64 (int k + 1)" using assms(5) Suc.prems by (auto simp: int64_def)
  with rounds_invariant [OF assms(1-4)] have ok: "db_ok (db_of ?v)" by blast
  have id: "jb_ID ?j = i" using ok q by (rule queue_map_ID)
  have fail: "snd (result (attempt E rt (jb_Payload ?j)) ?v) \<noteq> None"
    using assms(7) by (simp add: attempt_success del: not_None_eq)
  have "process_round E d i ?v = after (process E d ?j) ?v" by (simp add: process_round_def q)
  with process_own_job [OF assms(1) ok, of ?j t' d rt] fail q id Suc.prems \<open>int64 (int k + 1)\<close> assms(6)
  show ?case by (auto simp: add.commute)
qed

theorem no_early_giving_up_witness:
  "\<exists>t'. queue_map (db_of ((process_round (env_answering (Responded 500)) (example_deliverer 3) 1 ^^ 2)
      one_job_world)) 1 = Some (the_job\<lparr>jb_Attempts := 2\<rparr>, t')"
proof -
  have "\<exists>t'. queue_map (db_of ((process_round (env_answering (Responded 500)) (example_deliverer 3) 1 ^^ 2)
      one_job_world)) 1 = Some (the_job\<lparr>jb_Attempts := int 2\<rparr>, t')"
    by (rule no_early_giving_up [where rt = signed_route and t = 900])
      (simp_all add: one_job_world_facts int64_def, simp_all add: the_job_def env_answering_def)
  then show ?thesis by simp
qed

text \<open>C39: the delay before the retry after attempt \<open>k\<close> is the base doubled \<open>k - 1\<close> times,
  exactly, as long as that product fits a 64-bit duration; so with a positive base the delays grow
  strictly.\<close>

theorem retry_backoff_exact:
  assumes "1 \<le> k" "k \<le> 63" "0 \<le> base" "base * 2 ^ nat (k - 1) < 2 ^ 63"
  shows "retry_backoff base k = Some (base * 2 ^ nat (k - 1))
    \<and> (0 < base \<and> 1 < k \<longrightarrow>
        (\<exists>prev. retry_backoff base (k - 1) = Some prev \<and> base * 2 ^ nat (k - 1) = 2 * prev))"
proof -
  have exact: "retry_backoff base m = Some (base * 2 ^ nat (m - 1))"
    if "1 \<le> m" "m \<le> 63" "base * 2 ^ nat (m - 1) < 2 ^ 63" for m
  proof -
    have "(2::int) ^ nat (m - 1) < 2 ^ 63"
      using that by (intro power_strict_increasing) auto
    then have "int64 (2 ^ nat (m - 1))"
      by (simp add: int64_def order_trans [OF _ zero_le_power])
    moreover have "0 \<le> base * 2 ^ nat (m - 1)" using assms(3) by simp
    then have "int64 (base * 2 ^ nat (m - 1))" using that(3) unfolding int64_def by linarith
    moreover have "int64 (m - 1)" using that by (simp add: int64_def)
    ultimately show ?thesis
      using that by (simp add: retry_backoff_def shl1_def)
  qed
  have double: "base * 2 ^ nat (k - 1) = 2 * (base * 2 ^ nat (k - 1 - 1))" if "1 < k"
  proof -
    have "nat (k - 1) = Suc (nat (k - 1 - 1))" using that by simp
    then show ?thesis by simp
  qed
  have "retry_backoff base (k - 1) = Some (base * 2 ^ nat (k - 1 - 1))" if "1 < k"
    using that assms double [OF that] by (intro exact) auto
  with exact [of k] double assms show ?thesis by auto
qed

theorem retry_backoff_exact_witness: "retry_backoff (10 * second) 5 = Some (160 * second)"
  using retry_backoff_exact [of 5 "10 * second"] by (simp add: second_def)

text \<open>What is wrong with the delay after attempt \<open>k\<close> with the default base.\<close>

definition backoff_overflows :: "int \<Rightarrow> bool" where
  "backoff_overflows k \<longleftrightarrow>
     (case retry_backoff (10 * second) k of
        None \<Rightarrow> False
      | Some b \<Rightarrow> b < 10 * second * 2 ^ nat (k - 1) \<and> (10 * second * 2 ^ nat (k - 1) - b) mod 2 ^ 64 = 0
          \<and> (b < 0 \<longleftrightarrow> k \<in> {31, 34, 36, 38, 45, 47, 48, 49, 50, 51, 54}) \<and> (b = 0 \<longleftrightarrow> 55 \<le> k))"

lemma backoff_overflows_small: "list_all backoff_overflows [31..64]"
  by code_simp

lemma backoff_overflows_large:
  assumes "65 \<le> k" "int64 k"
  shows "backoff_overflows k"
proof -
  have "int64 (k - 1)" "64 \<le> k - 1" using assms by (auto simp: int64_def)
  then have "retry_backoff (10 * second) k = Some 0" by (simp add: retry_backoff_def shl1_def)
  moreover have "(2::int) ^ nat (k - 1) = 2 ^ 64 * 2 ^ nat (k - 65)"
  proof -
    have "nat (k - 1) = 64 + nat (k - 65)" using assms(1) by simp
    then show ?thesis by (simp only: power_add)
  qed
  ultimately show ?thesis using assms(1) by (auto simp: backoff_overflows_def second_def)
qed

text \<open>C40: with the default base of ten seconds the doubling is exact up to attempt 30 and overflows
  from attempt 31 on: every later delay is the intended one less a positive multiple of 2 to the 64
  nanoseconds. It is negative, so the retry is due in the past, exactly after the attempts 31, 34, 36,
  38, 45, 47 to 51 and 54; it is zero exactly from attempt 55 on; after the others it is positive and
  arbitrary.\<close>

theorem retry_backoff_overflow:
  "(\<forall>k. 1 \<le> k \<and> k \<le> 30 \<longrightarrow> retry_backoff (10 * second) k = Some (10 * second * 2 ^ nat (k - 1)))
   \<and> (\<forall>k. 31 \<le> k \<and> int64 k \<longrightarrow>
        (\<exists>b m. retry_backoff (10 * second) k = Some b
           \<and> b = 10 * second * 2 ^ nat (k - 1) - m * 2 ^ 64 \<and> 0 < m
           \<and> (b < 0 \<longleftrightarrow> k \<in> {31, 34, 36, 38, 45, 47, 48, 49, 50, 51, 54})
           \<and> (b = 0 \<longleftrightarrow> 55 \<le> k)))"
proof (intro conjI allI impI)
  fix k :: int
  assume "1 \<le> k \<and> k \<le> 30"
  then have "k \<in> set [1..30]" by (simp only: set_upto atLeastAtMost_iff)
  moreover have "list_all (\<lambda>k. retry_backoff (10 * second) k = Some (10 * second * 2 ^ nat (k - 1))) [1..30]"
    by code_simp
  ultimately show "retry_backoff (10 * second) k = Some (10 * second * 2 ^ nat (k - 1))"
    by (simp only: list_all_iff)
next
  fix k :: int
  assume k: "31 \<le> k \<and> int64 k"
  have "backoff_overflows k"
  proof (cases "k \<le> 64")
    case True
    with k have "k \<in> set [31..64]" by (simp only: set_upto atLeastAtMost_iff)
    with backoff_overflows_small show ?thesis by (simp only: list_all_iff)
  qed (use k backoff_overflows_large in simp)
  then obtain b where b: "retry_backoff (10 * second) k = Some b" "b < 10 * second * 2 ^ nat (k - 1)"
    "2 ^ 64 dvd 10 * second * 2 ^ nat (k - 1) - b"
    "b < 0 \<longleftrightarrow> k \<in> {31, 34, 36, 38, 45, 47, 48, 49, 50, 51, 54}" "b = 0 \<longleftrightarrow> 55 \<le> k"
    by (auto simp only: backoff_overflows_def mod_eq_0_iff_dvd split: option.splits)
  from b(3) obtain m where m: "10 * second * 2 ^ nat (k - 1) - b = 2 ^ 64 * m" by (rule dvdE)
  have less: "x - y = 2 ^ 64 * m \<Longrightarrow> y < x \<Longrightarrow> y = x - m * 2 ^ 64 \<and> 0 < m" for x y :: int by auto
  have "b = 10 * second * 2 ^ nat (k - 1) - m * 2 ^ 64" "0 < m" using less [OF m b(2)] by blast+
  with b show "\<exists>b m. retry_backoff (10 * second) k = Some b
      \<and> b = 10 * second * 2 ^ nat (k - 1) - m * 2 ^ 64 \<and> 0 < m
      \<and> (b < 0 \<longleftrightarrow> k \<in> {31, 34, 36, 38, 45, 47, 48, 49, 50, 51, 54}) \<and> (b = 0 \<longleftrightarrow> 55 \<le> k)"
    by blast
qed

theorem retry_backoff_overflow_witness:
  "\<exists>b. retry_backoff (10 * second) 47 = Some b \<and> b < 0"
  using retry_backoff_overflow [THEN conjunct2, THEN spec, of 47] by (auto simp: int64_def)

end
