(* ===== verification/Worker.thy ===== *)
theory Worker
  imports Delivery
begin

text \<open>
  The asynchronous worker of \<^verbatim>\<open>internal/delivery/delivery.go\<close> (\<^verbatim>\<open>RunWorker\<close>, \<^verbatim>\<open>drain\<close> and the goroutines
  they start) as a step relation, running beside the rest of the program.

  The atomic actions are: a claim, the start of a goroutine, and the three pieces of \<open>process\<close> (the
  HTTP exchange, the delivery log entry, the statement that settles the job). Between any two of them
  every other goroutine, and the SMTP sessions and the web interface, may act. The semaphore channel
  is the number of goroutines holding one of its slots; a drain makes a new one, so each goroutine
  remembers which semaphore it belongs to. Go's \<^verbatim>\<open>select\<close> picks any ready case, so a cancelled worker
  may still tick or start a goroutine.
\<close>

section \<open>State\<close>

datatype go_pc = Started | Attempted int goerror | Logged goerror

datatype go_status = Running go_pc | Exited goroutine_exit

record worker_go =
  wg_sem :: nat
  wg_job :: job
  wg_pc :: go_pc

datatype worker_phase = Idle | Draining | Stopped | Crashed

record worker =
  wk_world :: world
  wk_phase :: worker_phase
  wk_sem :: nat
  wk_pending :: "job list"
  wk_running :: "worker_go list"
  wk_cancelled :: bool

definition worker_start :: "world \<Rightarrow> worker" where
  "worker_start w = \<lparr>wk_world = w, wk_phase = Idle, wk_sem = 0, wk_pending = [], wk_running = [],
     wk_cancelled = False\<rparr>"

section \<open>Steps\<close>

text \<open>One atomic piece of \<open>process\<close>.\<close>

definition process_step :: "env \<Rightarrow> deliverer \<Rightarrow> job \<Rightarrow> go_pc \<Rightarrow> (world, go_status) state" where
  "process_step E d j pc =
     (case pc of
        Started \<Rightarrow>
          (case dv_routes d (jb_Route j) of
             None \<Rightarrow> do {
               _ \<leftarrow> CompleteJob E (jb_ID j);
               State_Monad.return (Exited Finished)
             }
           | Some route \<Rightarrow> do {
               ce \<leftarrow> attempt E route (jb_Payload j);
               State_Monad.return (Running (Attempted (fst ce) (snd ce)))
             })
      | Attempted code err \<Rightarrow> do {
          _ \<leftarrow> process_log E d j code err;
          State_Monad.return (Running (Logged err))
        }
      | Logged err \<Rightarrow> do {
          x \<leftarrow> process_settle E d j err;
          State_Monad.return (Exited x)
        })"

definition claim_limit :: "deliverer \<Rightarrow> int" where
  "claim_limit d = wrap64 (dl_concurrency (dv_cfg d) * 4)"

definition holds_slot :: "worker \<Rightarrow> worker_go \<Rightarrow> bool" where
  "holds_slot s g \<longleftrightarrow> wg_sem g = wk_sem s"

inductive drain_step :: "env \<Rightarrow> deliverer \<Rightarrow> worker \<Rightarrow> worker \<Rightarrow> bool" for E d where
  spawn: "wk_phase s = Draining \<Longrightarrow> wk_pending s = j # js \<Longrightarrow>
    int (length (filter (holds_slot s) (wk_running s))) < dl_concurrency (dv_cfg d) \<Longrightarrow>
    drain_step E d s (s\<lparr>wk_pending := js,
      wk_running := wk_running s @ [\<lparr>wg_sem = wk_sem s, wg_job = j, wg_pc = Started\<rparr>]\<rparr>)"
| advance: "wk_phase s \<noteq> Crashed \<Longrightarrow> wk_running s = gs @ g # hs \<Longrightarrow>
    result (process_step E d (wg_job g) (wg_pc g)) (wk_world s) = Running pc' \<Longrightarrow>
    drain_step E d s (s\<lparr>wk_world := after (process_step E d (wg_job g) (wg_pc g)) (wk_world s),
      wk_running := gs @ g\<lparr>wg_pc := pc'\<rparr> # hs\<rparr>)"
| finish: "wk_phase s \<noteq> Crashed \<Longrightarrow> wk_running s = gs @ g # hs \<Longrightarrow>
    result (process_step E d (wg_job g) (wg_pc g)) (wk_world s) = Exited Finished \<Longrightarrow>
    drain_step E d s (s\<lparr>wk_world := after (process_step E d (wg_job g) (wg_pc g)) (wk_world s),
      wk_running := gs @ hs\<rparr>)"
| panic: "wk_phase s \<noteq> Crashed \<Longrightarrow> g \<in> set (wk_running s) \<Longrightarrow>
    result (process_step E d (wg_job g) (wg_pc g)) (wk_world s) = Exited Panicked \<Longrightarrow>
    drain_step E d s (s\<lparr>wk_phase := Crashed\<rparr>)"
| drained: "wk_phase s = Draining \<Longrightarrow> wk_pending s = [] \<Longrightarrow>
    filter (holds_slot s) (wk_running s) = [] \<Longrightarrow> drain_step E d s (s\<lparr>wk_phase := Idle\<rparr>)"

text \<open>
  What the rest of the program may do to the world between two steps of the worker: it keeps every
  queued job as it is (it only adds jobs), the tables' keys unique, and the requests sent.
\<close>

definition outside_step :: "world \<Rightarrow> world \<Rightarrow> bool" where
  "outside_step w w' \<longleftrightarrow>
     (db_ok (db_of w) \<longrightarrow> db_ok (db_of w')
        \<and> (\<forall>i x. queue_map (db_of w) i = Some x \<longrightarrow> queue_map (db_of w') i = Some x))
     \<and> set (http_sent w) \<subseteq> set (http_sent w')"

inductive own_step :: "env \<Rightarrow> deliverer \<Rightarrow> worker \<Rightarrow> worker \<Rightarrow> bool" for E d where
  claim: "wk_phase s = Idle \<Longrightarrow> 0 \<le> dl_concurrency (dv_cfg d) \<Longrightarrow>
    result (ClaimDue E (claim_limit d)) (wk_world s) = Inr js \<Longrightarrow>
    own_step E d s (s\<lparr>wk_world := after (ClaimDue E (claim_limit d)) (wk_world s),
      wk_phase := Draining, wk_sem := Suc (wk_sem s), wk_pending := js\<rparr>)"
| claim_failed: "wk_phase s = Idle \<Longrightarrow>
    result (ClaimDue E (claim_limit d)) (wk_world s) = Inl err \<Longrightarrow>
    own_step E d s (s\<lparr>wk_world := after (ClaimDue E (claim_limit d)) (wk_world s)\<rparr>)"
| negative_cap: "wk_phase s = Idle \<Longrightarrow> dl_concurrency (dv_cfg d) < 0 \<Longrightarrow>
    result (ClaimDue E (claim_limit d)) (wk_world s) = Inr js \<Longrightarrow>
    own_step E d s (s\<lparr>wk_world := after (ClaimDue E (claim_limit d)) (wk_world s),
      wk_phase := Crashed\<rparr>)"
| drain: "drain_step E d s s' \<Longrightarrow> own_step E d s s'"
| cancel: "wk_phase s \<noteq> Crashed \<Longrightarrow> own_step E d s (s\<lparr>wk_cancelled := True\<rparr>)"
| abandon: "wk_phase s = Draining \<Longrightarrow> wk_pending s \<noteq> [] \<Longrightarrow> wk_cancelled s \<Longrightarrow>
    own_step E d s (s\<lparr>wk_phase := Idle, wk_pending := []\<rparr>)"
| stop: "wk_phase s = Idle \<Longrightarrow> wk_cancelled s \<Longrightarrow> own_step E d s (s\<lparr>wk_phase := Stopped\<rparr>)"

text \<open>A step of the worker, or of the rest of the program.\<close>

inductive worker_step :: "env \<Rightarrow> deliverer \<Rightarrow> worker \<Rightarrow> worker \<Rightarrow> bool" for E d where
  own: "own_step E d s s' \<Longrightarrow> worker_step E d s s'"
| outside: "wk_phase s \<noteq> Crashed \<Longrightarrow> outside_step (wk_world s) w' \<Longrightarrow>
    worker_step E d s (s\<lparr>wk_world := w'\<rparr>)"

inductive worker_reachable :: "env \<Rightarrow> deliverer \<Rightarrow> world \<Rightarrow> worker \<Rightarrow> bool" for E d w where
  start: "worker_reachable E d w (worker_start w)"
| more: "worker_reachable E d w s \<Longrightarrow> worker_step E d s s' \<Longrightarrow> worker_reachable E d w s'"

inductive_cases drain_stepE: "drain_step E d s s'"
lemmas worker_claim = own_step.claim [THEN worker_step.own]
lemmas worker_drain = own_step.drain [THEN worker_step.own]

section \<open>The pieces of process\<close>

text \<open>Run without interruption, the pieces are \<open>process\<close>.\<close>

fun run_pieces :: "nat \<Rightarrow> env \<Rightarrow> deliverer \<Rightarrow> job \<Rightarrow> go_pc \<Rightarrow> (world, goroutine_exit option) state" where
  "run_pieces 0 E d j pc = State_Monad.return None"
| "run_pieces (Suc n) E d j pc = do {
     st \<leftarrow> process_step E d j pc;
     (case st of Exited x \<Rightarrow> State_Monad.return (Some x) | Running pc' \<Rightarrow> run_pieces n E d j pc')
   }"

lemma run_pieces_process:
  "result (run_pieces 3 E d j Started) w = Some (result (process E d j) w)
   \<and> after (run_pieces 3 E d j Started) w = after (process E d j) w"
  by (simp add: eval_nat_numeral process_step_def process_def split: option.splits)

definition delivered :: "deliverer \<Rightarrow> world \<Rightarrow> job \<Rightarrow> bool" where
  "delivered d w j \<longleftrightarrow> (\<exists>rt out. dv_routes d (jb_Route j) = Some rt \<and> success_outcome out
     \<and> (webhook_request rt (jb_Payload j), out) \<in> set (http_sent w))"

fun pc_success :: "go_pc \<Rightarrow> bool" where
  "pc_success Started \<longleftrightarrow> False"
| "pc_success (Attempted code err) \<longleftrightarrow> err = None"
| "pc_success (Logged err) \<longleftrightarrow> err = None"

lemma delivered_mono: "delivered d w j \<Longrightarrow> set (http_sent w) \<subseteq> set (http_sent w') \<Longrightarrow> delivered d w' j"
  by (auto simp: delivered_def)

lemma keeps_http_settle [intro!, simp]: "keeps http_sent (process_settle E d j e)"
  by (auto simp: process_settle_def split: option.splits intro!: keeps_bind)

lemma process_step_ok: "preserves_db (process_step E d j pc)"
  by (auto simp: process_step_def split: go_pc.splits option.splits intro!: preserves_bind)

lemma process_step_http:
  "set (http_sent w) \<subseteq> set (http_sent (after (process_step E d j pc) w))"
  using attempt_http_mono
  by (auto simp: process_step_def keepsD split: go_pc.splits option.splits)

lemma process_step_other:
  "db_ok (db_of w) \<Longrightarrow> i \<noteq> jb_ID j \<Longrightarrow>
     queue_map (db_of (after (process_step E d j pc) w)) i = queue_map (db_of w) i"
  by (auto simp: process_step_def CompleteJob_db jq.remove_keeps settle_other_job queue_map_keeps
      split: go_pc.splits option.splits)

lemma process_step_running:
  assumes "result (process_step E d j pc) w = Running pc'"
  shows "queue_map (db_of (after (process_step E d j pc) w)) = queue_map (db_of w)"
    and "(pc_success pc \<longrightarrow> delivered d w j) \<Longrightarrow> pc_success pc' \<Longrightarrow>
      delivered d (after (process_step E d j pc) w) j"
  using assms attempt_success_sent [of E _ "jb_Payload j" w]
  by (auto simp: process_step_def queue_map_keeps delivered_def keepsD
      split: go_pc.splits option.splits)

text \<open>Why a job is removed by the last piece.\<close>

lemma process_step_removes:
  assumes "db_ok (db_of w)" "queue_map (db_of w) (jb_ID j) = Some (j, t)"
    and "queue_map (db_of (after (process_step E d j pc) w)) (jb_ID j) = None"
    and "pc_success pc \<longrightarrow> delivered d w j"
  shows "dv_routes d (jb_Route j) = None \<or> delivered d w j
    \<or> dl_max_retries (dv_cfg d) \<le> job_attempt j"
proof (cases pc)
  case Started
  with assms(2,3) show ?thesis
    by (auto simp: process_step_def queue_map_keeps split: option.splits)
next
  case (Attempted c e)
  with assms(2,3) show ?thesis by (simp add: process_step_def queue_map_keeps)
next
  case (Logged e)
  show ?thesis
  proof (cases "job_done d j e")
    case True
    with assms(4) Logged show ?thesis by (auto simp: job_done_def)
  next
    case False
    have "queue_map (db_of (after (process_settle E d j e) w)) (jb_ID j) \<noteq> None"
    proof (cases "retry_backoff (dl_retry_backoff (dv_cfg d)) (job_attempt j)")
      case None
      with False assms(2) show ?thesis by (simp add: settle_panic)
    next
      case (Some b)
      with False assms(1,2) show ?thesis by (simp add: settle_retry RescheduleJob_db jq.jobs_postpone)
    qed
    with assms(3) Logged show ?thesis by (simp add: process_step_def)
  qed
qed

section \<open>The invariant\<close>

text \<open>The jobs a drain is responsible for: those claimed and not yet started, and those running.\<close>

definition active_jobs :: "worker \<Rightarrow> job list" where
  "active_jobs s = wk_pending s @ map wg_job (wk_running s)"

definition jobs_ok :: "worker \<Rightarrow> bool" where
  "jobs_ok s \<longleftrightarrow> distinct (map jb_ID (active_jobs s))
     \<and> (\<forall>j\<in>set (active_jobs s). \<exists>t. queue_map (db_of (wk_world s)) (jb_ID j) = Some (j, t))"

definition slots_ok :: "deliverer \<Rightarrow> worker \<Rightarrow> bool" where
  "slots_ok d s \<longleftrightarrow> (\<forall>g\<in>set (wk_running s). holds_slot s g)
     \<and> int (length (wk_running s)) \<le> max 0 (dl_concurrency (dv_cfg d))
     \<and> (wk_phase s \<noteq> Draining \<longrightarrow> wk_pending s = [] \<and> wk_running s = [])"

definition successes_ok :: "deliverer \<Rightarrow> worker \<Rightarrow> bool" where
  "successes_ok d s \<longleftrightarrow>
     (\<forall>g\<in>set (wk_running s). pc_success (wg_pc g) \<longrightarrow> delivered d (wk_world s) (wg_job g))"

text \<open>After a cancellation a drain may leave its goroutines behind, and after a panic there is no
  process any more: the rest of the invariant is for a worker in operation.\<close>

definition operating :: "worker \<Rightarrow> bool" where
  "operating s \<longleftrightarrow> \<not> wk_cancelled s \<and> wk_phase s \<noteq> Crashed"

definition worker_inv :: "deliverer \<Rightarrow> worker \<Rightarrow> bool" where
  "worker_inv d s \<longleftrightarrow> db_ok (db_of (wk_world s))
     \<and> (operating s \<longrightarrow> jobs_ok s \<and> slots_ok d s \<and> successes_ok d s)"

lemma jobs_ok_mono:
  assumes "jobs_ok s" "mset (map jb_ID (active_jobs s')) \<subseteq># mset (map jb_ID (active_jobs s))"
    and "\<And>j. j \<in> set (active_jobs s') \<Longrightarrow> j \<in> set (active_jobs s)
      \<and> queue_map (db_of (wk_world s')) (jb_ID j) = queue_map (db_of (wk_world s)) (jb_ID j)"
  shows "jobs_ok s'"
proof -
  have "distinct xs" if "distinct ys" "mset xs \<subseteq># mset ys" for xs ys :: "int list"
    using that by (metis distinct_append mset_append mset_eq_imp_distinct_iff
        mset_subset_eq_exists_conv ex_mset)
  with assms(1,2) have "distinct (map jb_ID (active_jobs s'))" unfolding jobs_ok_def by blast
  moreover have "\<exists>t. queue_map (db_of (wk_world s')) (jb_ID j) = Some (j, t)"
    if "j \<in> set (active_jobs s')" for j
    using assms(1) assms(3) [OF that] by (simp add: jobs_ok_def)
  ultimately show ?thesis by (simp add: jobs_ok_def)
qed

text \<open>A piece of one goroutine.\<close>

lemma running_facts:
  assumes "worker_inv d s" "operating s" "wk_running s = gs @ g # hs"
  shows "db_ok (db_of (wk_world s))" "\<exists>t. queue_map (db_of (wk_world s)) (jb_ID (wg_job g)) = Some (wg_job g, t)"
    and "pc_success (wg_pc g) \<longrightarrow> delivered d (wk_world s) (wg_job g)"
    and "\<And>j. j \<in> set (wk_pending s) \<union> wg_job ` set (gs @ hs) \<Longrightarrow> jb_ID j \<noteq> jb_ID (wg_job g)"
proof -
  have ok: "jobs_ok s" "successes_ok d s" using assms(1,2) by (simp_all add: worker_inv_def)
  show "db_ok (db_of (wk_world s))" using assms(1) by (simp add: worker_inv_def)
  show "\<exists>t. queue_map (db_of (wk_world s)) (jb_ID (wg_job g)) = Some (wg_job g, t)"
    using ok(1) assms(3) by (simp add: jobs_ok_def active_jobs_def)
  show "pc_success (wg_pc g) \<longrightarrow> delivered d (wk_world s) (wg_job g)"
    using ok(2) assms(3) by (simp add: successes_ok_def)
  fix j
  assume j: "j \<in> set (wk_pending s) \<union> wg_job ` set (gs @ hs)"
  have "jb_ID (wg_job g) \<notin> jb_ID ` (set (wk_pending s) \<union> wg_job ` set (gs @ hs))"
    using ok(1) assms(3) by (simp add: jobs_ok_def active_jobs_def image_Un image_image comp_def)
  with j show "jb_ID j \<noteq> jb_ID (wg_job g)" by (metis imageI)
qed

lemma inv_advance:
  assumes "worker_inv d s" "wk_running s = gs @ g # hs" "wk_phase s \<noteq> Crashed"
    and "result (process_step E d (wg_job g) (wg_pc g)) (wk_world s) = Running pc'"
  shows "worker_inv d (s\<lparr>wk_world := after (process_step E d (wg_job g) (wg_pc g)) (wk_world s),
      wk_running := gs @ g\<lparr>wg_pc := pc'\<rparr> # hs\<rparr>)" (is "worker_inv d ?s'")
proof -
  let ?w = "wk_world s" and ?w' = "after (process_step E d (wg_job g) (wg_pc g)) (wk_world s)"
  have ok: "db_ok (db_of ?w')"
    using assms(1) preservesD [OF process_step_ok] by (simp add: worker_inv_def)
  have "jobs_ok ?s' \<and> slots_ok d ?s' \<and> successes_ok d ?s'" if op: "operating s"
  proof (intro conjI)
    note run = process_step_running [OF assms(4)]
    from assms(1) op have old: "jobs_ok s" "slots_ok d s" "successes_ok d s"
      by (simp_all add: worker_inv_def)
    show "jobs_ok ?s'"
      by (rule jobs_ok_mono [OF old(1)]) (auto simp: active_jobs_def assms(2) run(1))
    show "slots_ok d ?s'" using old(2) assms(2) by (auto simp: slots_ok_def holds_slot_def)
    have del: "pc_success pc' \<longrightarrow> delivered d ?w' (wg_job g)"
      using run(2) running_facts(3) [OF assms(1) op assms(2)] by blast
    have "delivered d ?w' (wg_job h)" if "h \<in> set gs \<union> set hs" "pc_success (wg_pc h)" for h
      using old(3) that assms(2) delivered_mono [OF _ process_step_http]
      by (auto simp: successes_ok_def)
    with del show "successes_ok d ?s'" by (auto simp: successes_ok_def)
  qed
  with ok show ?thesis by (simp add: worker_inv_def operating_def)
qed

lemma inv_finish:
  assumes "worker_inv d s" "wk_running s = gs @ g # hs" "wk_phase s \<noteq> Crashed"
  shows "worker_inv d (s\<lparr>wk_world := after (process_step E d (wg_job g) (wg_pc g)) (wk_world s),
      wk_running := gs @ hs\<rparr>)" (is "worker_inv d ?s'")
proof -
  let ?w = "wk_world s" and ?w' = "after (process_step E d (wg_job g) (wg_pc g)) (wk_world s)"
  have ok: "db_ok (db_of ?w')"
    using assms(1) preservesD [OF process_step_ok] by (simp add: worker_inv_def)
  have "jobs_ok ?s' \<and> slots_ok d ?s' \<and> successes_ok d ?s'" if op: "operating s"
  proof (intro conjI)
    note f = running_facts [OF assms(1) op assms(2)]
    from assms(1) op have old: "jobs_ok s" "slots_ok d s" "successes_ok d s"
      by (simp_all add: worker_inv_def)
    show "jobs_ok ?s'"
    proof (rule jobs_ok_mono [OF old(1)])
      fix j
      assume "j \<in> set (active_jobs ?s')"
      then show "j \<in> set (active_jobs s)
          \<and> queue_map (db_of (wk_world ?s')) (jb_ID j) = queue_map (db_of (wk_world s)) (jb_ID j)"
        using process_step_other [OF f(1) f(4)] by (auto simp: active_jobs_def assms(2))
    qed (simp add: active_jobs_def assms(2))
    show "slots_ok d ?s'" using old(2) assms(2) by (auto simp: slots_ok_def holds_slot_def)
    have "delivered d ?w' (wg_job h)" if "h \<in> set gs \<union> set hs" "pc_success (wg_pc h)" for h
      using old(3) that assms(2) delivered_mono [OF _ process_step_http]
      by (auto simp: successes_ok_def)
    then show "successes_ok d ?s'" by (auto simp: successes_ok_def)
  qed
  with ok show ?thesis by (simp add: worker_inv_def operating_def)
qed

lemma inv_spawn:
  assumes "worker_inv d s" "wk_phase s = Draining" "wk_pending s = j # js"
    and "int (length (filter (holds_slot s) (wk_running s))) < dl_concurrency (dv_cfg d)"
  shows "worker_inv d (s\<lparr>wk_pending := js,
      wk_running := wk_running s @ [\<lparr>wg_sem = wk_sem s, wg_job = j, wg_pc = Started\<rparr>]\<rparr>)"
proof -
  have "filter (holds_slot s) (wk_running s) = wk_running s" if "slots_ok d s"
    using that by (simp add: slots_ok_def)
  with assms show ?thesis
    by (auto simp: worker_inv_def operating_def jobs_ok_def active_jobs_def slots_ok_def
        holds_slot_def successes_ok_def)
qed

lemma inv_claim:
  assumes "worker_inv d s" "wk_phase s = Idle" "result (ClaimDue E lim) (wk_world s) = Inr js"
  shows "worker_inv d (s\<lparr>wk_world := after (ClaimDue E lim) (wk_world s), wk_phase := Draining,
      wk_sem := Suc (wk_sem s), wk_pending := js\<rparr>)"
proof -
  let ?w = "wk_world s" and ?w' = "after (ClaimDue E lim) (wk_world s)"
  have ok: "db_ok (db_of ?w)" using assms(1) by (simp add: worker_inv_def)
  have db: "db_of ?w' = db_of ?w" by (simp add: ClaimDue_def run_simps after_db_exec sql_due_def)
  obtain t where js: "js = fst (sql_due t lim (db_of ?w))"
    using assms(3) by (auto simp: ClaimDue_def run_simps db_exec_ok)
  have "\<exists>t. queue_map (db_of ?w) (jb_ID j) = Some (j, t)" if "j \<in> set js" for j
    using jq.due_sound [OF ok that [unfolded js]] by blast
  moreover have "distinct (map jb_ID js)" unfolding js using ok by (rule jq.due_distinct)
  ultimately show ?thesis
    using assms(1,2) by (auto simp: worker_inv_def operating_def jobs_ok_def active_jobs_def
        slots_ok_def successes_ok_def db)
qed

lemma inv_outside:
  assumes "worker_inv d s" "outside_step (wk_world s) w'"
  shows "worker_inv d (s\<lparr>wk_world := w'\<rparr>)"
proof -
  have ok: "db_ok (db_of (wk_world s))" using assms(1) by (simp add: worker_inv_def)
  with assms(2) have "db_ok (db_of w')"
    and q: "\<And>i x. queue_map (db_of (wk_world s)) i = Some x \<Longrightarrow> queue_map (db_of w') i = Some x"
    and h: "set (http_sent (wk_world s)) \<subseteq> set (http_sent w')"
    by (auto simp: outside_step_def)
  with assms(1) show ?thesis
    by (auto simp: worker_inv_def operating_def jobs_ok_def active_jobs_def slots_ok_def
        holds_slot_def successes_ok_def intro: delivered_mono [OF _ h] dest!: q)
qed

lemma ClaimDue_failed_world:
  assumes "result (ClaimDue E lim) w = Inl e"
  shows "db_of (after (ClaimDue E lim) w) = db_of w" "http_sent (after (ClaimDue E lim) w) = http_sent w"
  by (simp_all add: ClaimDue_def run_simps after_db_exec sql_due_def)

lemma worker_inv_drain_step: "drain_step E d s s' \<Longrightarrow> worker_inv d s \<Longrightarrow> worker_inv d s'"
proof (induction rule: drain_step.induct)
  case (spawn s j js)
  then show ?case by (intro inv_spawn)
next
  case (advance s gs g hs pc')
  then show ?case by (intro inv_advance)
next
  case (finish s gs g hs)
  then show ?case by (intro inv_finish)
next
  case (panic s g)
  then show ?case by (simp add: worker_inv_def operating_def)
next
  case (drained s)
  then show ?case
    by (auto simp: worker_inv_def operating_def jobs_ok_def active_jobs_def slots_ok_def
        holds_slot_def successes_ok_def filter_empty_conv)
qed

lemma worker_inv_own_step: "own_step E d s s' \<Longrightarrow> worker_inv d s \<Longrightarrow> worker_inv d s'"
proof (induction rule: own_step.induct)
  case (claim s js)
  then show ?case by (intro inv_claim)
next
  case (claim_failed s err)
  then have "outside_step (wk_world s) (after (ClaimDue E (claim_limit d)) (wk_world s))"
    by (simp add: outside_step_def ClaimDue_failed_world)
  with claim_failed.prems show ?case by (rule inv_outside)
next
  case (negative_cap s js)
  have "db_of (after (ClaimDue E (claim_limit d)) (wk_world s)) = db_of (wk_world s)"
    by (simp add: ClaimDue_def run_simps after_db_exec sql_due_def)
  with negative_cap show ?case by (simp add: worker_inv_def operating_def)
next
  case (drain s s')
  then show ?case by (rule worker_inv_drain_step)
qed (simp_all add: worker_inv_def operating_def)

lemma worker_inv_step: "worker_step E d s s' \<Longrightarrow> worker_inv d s \<Longrightarrow> worker_inv d s'"
  by (induction rule: worker_step.induct) (auto intro: worker_inv_own_step inv_outside)

lemma worker_inv_reachable:
  assumes "worker_reachable E d w s" "db_ok (db_of w)"
  shows "worker_inv d s"
  using assms(1)
proof (induction rule: worker_reachable.induct)
  case start
  with assms(2) show ?case
    by (simp add: worker_start_def worker_inv_def jobs_ok_def active_jobs_def slots_ok_def successes_ok_def)
next
  case (more s s')
  then show ?case by (blast intro: worker_inv_step)
qed

section \<open>Why a job leaves\<close>

lemma own_step_removes:
  assumes inv: "worker_inv d s" and op: "operating s" and step: "own_step E d s s'"
    and q: "queue_map (db_of (wk_world s)) i = Some (j, t)" "queue_map (db_of (wk_world s')) i = None"
  shows "dv_routes d (jb_Route j) = None \<or> delivered d (wk_world s) j
    \<or> dl_max_retries (dv_cfg d) \<le> job_attempt j"
proof -
  have ok: "db_ok (db_of (wk_world s))" using inv by (simp add: worker_inv_def)
  have i: "jb_ID j = i" using ok q(1) by (rule queue_map_ID)
  have claim: "db_of (after (ClaimDue E (claim_limit d)) v) = db_of v" for v
    by (simp add: ClaimDue_def run_simps after_db_exec sql_due_def)
  have piece: ?thesis
    if run: "wk_running s = gs @ g # hs"
      and w': "wk_world s' = after (process_step E d (wg_job g) (wg_pc g)) (wk_world s)" for gs g hs
  proof -
    note f = running_facts [OF inv op run]
    have "jb_ID (wg_job g) = i"
      using process_step_other [OF f(1), of i "wg_job g" E d "wg_pc g"] q w' by auto
    with f(2) q(1) have "wg_job g = j" by auto
    with process_step_removes [OF ok _ _ f(3)] q w' i show ?thesis by auto
  qed
  from step show ?thesis
  proof cases
    case drain
    then show ?thesis using piece q by (cases rule: drain_stepE) auto
  qed (use q claim in auto)
qed

text \<open>A job that stays changes only in its attempts and its due time, one attempt at a time.\<close>

lemma process_step_keeps_job:
  assumes "db_ok (db_of w)" "queue_map (db_of w) i = Some (j, t)" "\<exists>t. queue_map (db_of w) (jb_ID j0) = Some (j0, t)"
    and "queue_map (db_of (after (process_step E d j0 pc) w)) i = Some (j', t')"
  shows "\<exists>n\<in>{jb_Attempts j, job_attempt j}. j' = j\<lparr>jb_Attempts := n\<rparr>"
proof (cases "jb_ID j0 = i")
  case False
  with process_step_other [OF assms(1)] assms(2,4) show ?thesis by force
next
  case True
  with assms(2,3) have j0: "j0 = j" by auto
  show ?thesis
  proof (cases pc)
    case (Logged e)
    show ?thesis
    proof (cases "job_done d j e")
      case True
      with assms(2,4) Logged j0 \<open>jb_ID j0 = i\<close> assms(1) show ?thesis
        by (cases "next_stmt_ok E w")
          (simp_all add: process_step_def settle_done CompleteJob_db jq.jobs_remove)
    next
      case False
      with assms Logged j0 \<open>jb_ID j0 = i\<close> show ?thesis
        by (cases "retry_backoff (dl_retry_backoff (dv_cfg d)) (job_attempt j)")
          (auto simp: process_step_def settle_panic settle_retry RescheduleJob_db jq.jobs_postpone
            split: if_splits)
    qed
  qed (use assms(1,2,4) j0 \<open>jb_ID j0 = i\<close> in
      \<open>auto simp: process_step_def queue_map_keeps CompleteJob_db jq.jobs_remove split: option.splits if_splits\<close>)
qed

lemma own_step_keeps_job:
  assumes inv: "worker_inv d s" and op: "operating s" and step: "own_step E d s s'"
    and q: "queue_map (db_of (wk_world s)) i = Some (j, t)"
      "queue_map (db_of (wk_world s')) i = Some (j', t')"
  shows "\<exists>n\<in>{jb_Attempts j, job_attempt j}. j' = j\<lparr>jb_Attempts := n\<rparr>"
proof -
  have claim: "db_of (after (ClaimDue E (claim_limit d)) v) = db_of v" for v
    by (simp add: ClaimDue_def run_simps after_db_exec sql_due_def)
  have same: ?thesis if "j' = j" using that by (cases j) simp
  have piece: ?thesis
    if run: "wk_running s = gs @ g # hs"
      and w': "wk_world s' = after (process_step E d (wg_job g) (wg_pc g)) (wk_world s)" for gs g hs
    using process_step_keeps_job [OF running_facts(1) [OF inv op run] q(1) running_facts(2) [OF inv op run]]
      q(2) w' by simp
  from step show ?thesis
  proof cases
    case drain
    then show ?thesis using piece same q by (cases rule: drain_stepE) auto
  qed (use q claim same in auto)
qed

text \<open>Requests are never unsent.\<close>

lemma own_step_http: "own_step E d s s' \<Longrightarrow> set (http_sent (wk_world s)) \<subseteq> set (http_sent (wk_world s'))"
proof (induction rule: own_step.induct)
  case (drain s s')
  then show ?case using process_step_http [THEN subsetD] by (cases rule: drain_step.cases) auto
qed (auto simp: keepsD)

text \<open>With a negative concurrency nothing is ever claimed, and the attempt to is a panic.\<close>

lemma negative_own_step:
  assumes "own_step E d s s'" "dl_concurrency (dv_cfg d) < 0"
    and "wk_phase s \<noteq> Draining \<and> wk_pending s = [] \<and> wk_running s = []"
  shows "wk_phase s' \<noteq> Draining \<and> wk_pending s' = [] \<and> wk_running s' = []"
  using assms
proof (induction rule: own_step.induct)
  case (drain s s')
  then show ?case by (cases rule: drain_step.cases) simp_all
qed simp_all

lemma negative_reachable:
  assumes "worker_reachable E d w s" "dl_concurrency (dv_cfg d) < 0"
  shows "wk_phase s \<noteq> Draining \<and> wk_pending s = [] \<and> wk_running s = []"
  using assms(1)
proof (induction rule: worker_reachable.induct)
  case start
  show ?case by (simp add: worker_start_def)
next
  case (more s s')
  from more.hyps(2) show ?case
  proof cases
    case own
    from negative_own_step [OF this assms(2) more.IH] show ?thesis .
  qed (use more.IH in simp)
qed

lemma negative_claim:
  assumes "own_step E d s s'" "dl_concurrency (dv_cfg d) < 0" "wk_phase s = Idle" "wk_running s = []"
    and "result (ClaimDue E (claim_limit d)) (wk_world s) = Inr js"
  shows "wk_phase s' \<in> {Crashed, Stopped} \<or> s' = s\<lparr>wk_cancelled := True\<rparr>"
  using assms(1)
proof cases
  case drain
  then show ?thesis using assms(3,4) by cases simp_all
qed (use assms in simp_all)

section \<open>Progress of a drain\<close>

fun pc_weight :: "go_pc \<Rightarrow> nat" where
  "pc_weight Started = 3"
| "pc_weight (Attempted code err) = 2"
| "pc_weight (Logged err) = 1"

fun phase_weight :: "worker_phase \<Rightarrow> nat" where
  "phase_weight Draining = 2"
| "phase_weight Crashed = 0"
| "phase_weight Idle = 1"
| "phase_weight Stopped = 1"

definition drain_measure :: "worker \<Rightarrow> nat" where
  "drain_measure s = 4 * length (wk_pending s) + sum_list (map (pc_weight \<circ> wg_pc) (wk_running s))
     + phase_weight (wk_phase s)"

lemma pc_weight_pos: "0 < pc_weight pc"
  by (cases pc) auto

lemma process_step_weight:
  "result (process_step E d j pc) w = Running pc' \<Longrightarrow> pc_weight pc' < pc_weight pc"
  by (auto simp: process_step_def split: go_pc.splits option.splits)

lemma phase_weight_pos: "ph \<noteq> Crashed \<Longrightarrow> 0 < phase_weight ph"
  by (cases ph) auto

lemma drain_step_decreases: "drain_step E d s s' \<Longrightarrow> drain_measure s' < drain_measure s"
  by (induction rule: drain_step.induct)
    (auto simp: drain_measure_def process_step_weight pc_weight_pos phase_weight_pos)

definition attempts_sane :: "job \<Rightarrow> bool" where
  "attempts_sane j \<longleftrightarrow> 0 \<le> jb_Attempts j \<and> int64 (jb_Attempts j + 1)"

lemma process_step_no_panic:
  assumes "attempts_sane j"
  shows "result (process_step E d j pc) w \<noteq> Exited Panicked"
proof -
  have "int64 (jb_Attempts j)" using assms by (auto simp: attempts_sane_def int64_def)
  with assms have "\<not> wrap64 (job_attempt j - 1) < 0"
    by (simp add: attempts_sane_def job_attempt_def)
  then have "retry_backoff b (job_attempt j) \<noteq> None" for b by (simp add: retry_backoff_None)
  then have "result (process_settle E d j e) w \<noteq> Panicked" for e w
    by (cases "retry_backoff (dl_retry_backoff (dv_cfg d)) (job_attempt j)")
      (simp_all add: process_settle_def del: not_None_eq)
  then show ?thesis by (auto simp: process_step_def split: go_pc.splits option.splits)
qed

lemma drain_step_enabled:
  assumes "wk_phase s = Draining" "0 < dl_concurrency (dv_cfg d)"
    and "\<forall>j\<in>set (active_jobs s). attempts_sane j"
  shows "\<exists>s'. drain_step E d s s' \<and> set (active_jobs s') \<subseteq> set (active_jobs s)
    \<and> (wk_phase s' = Draining \<or> wk_phase s' = Idle \<and> wk_pending s' = [])"
proof (cases "wk_running s")
  case (Cons g hs)
  then have run: "wk_running s = [] @ g # hs" by simp
  let ?m = "process_step E d (wg_job g) (wg_pc g)"
  have "attempts_sane (wg_job g)" using assms(3) Cons by (simp add: active_jobs_def)
  then have no_panic: "result ?m (wk_world s) \<noteq> Exited Panicked" by (rule process_step_no_panic)
  show ?thesis
  proof (cases "result ?m (wk_world s)")
    case 1: (Running pc')
    let ?s' = "s\<lparr>wk_world := after ?m (wk_world s), wk_running := [] @ g\<lparr>wg_pc := pc'\<rparr> # hs\<rparr>"
    have "drain_step E d s ?s'" using assms(1) by (intro drain_step.advance [OF _ run 1]) simp
    moreover have "set (active_jobs ?s') \<subseteq> set (active_jobs s)" by (simp add: active_jobs_def Cons)
    moreover have "wk_phase ?s' = Draining" using assms(1) by simp
    ultimately show ?thesis by blast
  next
    case (Exited x)
    with no_panic have 2: "result ?m (wk_world s) = Exited Finished" by (cases x) simp_all
    let ?s' = "s\<lparr>wk_world := after ?m (wk_world s), wk_running := [] @ hs\<rparr>"
    have "drain_step E d s ?s'" using assms(1) by (intro drain_step.finish [OF _ run 2]) simp
    moreover have "set (active_jobs ?s') \<subseteq> set (active_jobs s)" by (auto simp: active_jobs_def Cons)
    moreover have "wk_phase ?s' = Draining" using assms(1) by simp
    ultimately show ?thesis by blast
  qed
next
  case Nil
  show ?thesis
  proof (cases "wk_pending s")
    case (Cons j js)
    let ?s' = "s\<lparr>wk_pending := js,
        wk_running := wk_running s @ [\<lparr>wg_sem = wk_sem s, wg_job = j, wg_pc = Started\<rparr>]\<rparr>"
    have "drain_step E d s ?s'" using assms(2) Nil by (intro drain_step.spawn [OF assms(1) Cons]) simp
    moreover have "set (active_jobs ?s') \<subseteq> set (active_jobs s)" by (auto simp: active_jobs_def Cons)
    moreover have "wk_phase ?s' = Draining" using assms(1) by simp
    ultimately show ?thesis by blast
  next
    case Nil': Nil
    have "drain_step E d s (s\<lparr>wk_phase := Idle\<rparr>)"
      using Nil by (intro drain_step.drained [OF assms(1) Nil']) simp
    then show ?thesis by (intro exI conjI) (auto simp: active_jobs_def Nil Nil')
  qed
qed

lemma drain_reaches_idle:
  assumes "wk_phase s = Draining" "0 < dl_concurrency (dv_cfg d)"
    and "\<forall>j\<in>set (active_jobs s). attempts_sane j"
  shows "\<exists>s'. (drain_step E d)\<^sup>*\<^sup>* s s' \<and> wk_phase s' = Idle \<and> wk_pending s' = []"
  using assms(1,3)
proof (induction "drain_measure s" arbitrary: s rule: less_induct)
  case less
  from drain_step_enabled [OF less.prems(1) assms(2) less.prems(2)] obtain s1 where
    s1: "drain_step E d s s1" "set (active_jobs s1) \<subseteq> set (active_jobs s)"
    "wk_phase s1 = Draining \<or> wk_phase s1 = Idle \<and> wk_pending s1 = []" by blast
  from s1(3) show ?case
  proof
    assume "wk_phase s1 = Draining"
    then obtain s' where "(drain_step E d)\<^sup>*\<^sup>* s1 s'" "wk_phase s' = Idle" "wk_pending s' = []"
      using less.hyps [OF drain_step_decreases [OF s1(1)]] less.prems(2) s1(2) by blast
    then show ?thesis using s1(1) by (meson converse_rtranclp_into_rtranclp)
  next
    assume "wk_phase s1 = Idle \<and> wk_pending s1 = []"
    then show ?thesis using s1(1) by blast
  qed
qed

lemma drain_length:
  assumes "f 0 = s" "\<And>k. k < n \<Longrightarrow> drain_step E d (f k) (f (Suc k))"
  shows "n \<le> drain_measure s"
proof -
  have "m \<le> n \<Longrightarrow> drain_measure (f m) + m \<le> drain_measure s" for m
  proof (induction m)
    case (Suc m)
    then show ?case using drain_step_decreases [OF assms(2) [of m]] by simp
  qed (simp add: assms(1))
  from this [of n] show ?thesis by simp
qed

section \<open>Properties\<close>

text \<open>C4: as long as the worker is in operation (not cancelled, no panic), whatever the other
  goroutines, the sessions, the web interface, the webhooks and the disk do in between: no two
  goroutines work on the same job, no more goroutines run than the configured concurrency, and each
  of them works on a job that is still in the queue, exactly as it is there.\<close>

theorem no_double_processing:
  assumes "worker_reachable E d w s" "db_ok (db_of w)" "\<not> wk_cancelled s" "wk_phase s \<noteq> Crashed"
  shows "distinct (map (jb_ID \<circ> wg_job) (wk_running s))
    \<and> int (length (wk_running s)) \<le> max 0 (dl_concurrency (dv_cfg d))
    \<and> (\<forall>g\<in>set (wk_running s). \<exists>t.
         queue_map (db_of (wk_world s)) (jb_ID (wg_job g)) = Some (wg_job g, t))
    \<and> (wk_phase s = Idle \<longrightarrow> wk_running s = [])"
  using worker_inv_reachable [OF assms(1,2)] assms(3,4)
  by (auto simp: worker_inv_def operating_def jobs_ok_def active_jobs_def slots_ok_def)

text \<open>A run of the worker on the one-job queue, up to the last piece of the job.\<close>

definition run_env :: env where
  "run_env = env_answering (Responded 200)"

definition claimed_world :: world where
  "claimed_world = after (ClaimDue run_env 16) one_job_world"

definition busy_worker :: "world \<Rightarrow> go_pc \<Rightarrow> worker" where
  "busy_worker v pc = \<lparr>wk_world = v, wk_phase = Draining, wk_sem = 1, wk_pending = [],
     wk_running = [\<lparr>wg_sem = 1, wg_job = the_job, wg_pc = pc\<rparr>], wk_cancelled = False\<rparr>"

lemma the_job_sel [simp]: "jb_ID the_job = 1" "jb_Attempts the_job = 0"
  by (simp_all add: the_job_def)

lemma run_started: "worker_reachable run_env (example_deliverer 3) one_job_world (busy_worker claimed_world Started)"
proof -
  let ?d = "example_deliverer 3" and ?s0 = "worker_start one_job_world"
  have lim: "claim_limit ?d = 16" by (simp add: claim_limit_def one_job_world_facts int64_def)
  have "result (ClaimDue run_env 16) one_job_world = Inr [the_job]"
    by (simp add: ClaimDue_def run_simps result_db_exec run_env_def env_answering_def initial_world_def
        one_job_world_def empty_db_def sql_insert_queue_def sql_due_def job_of_def sql_limit_def
        UnixMilli_def the_job_def)
  with worker_claim [of ?s0 ?d run_env "[the_job]"]
  have "worker_step run_env ?d ?s0 \<lparr>wk_world = claimed_world, wk_phase = Draining, wk_sem = 1,
      wk_pending = [the_job], wk_running = [], wk_cancelled = False\<rparr>" (is "worker_step _ _ _ ?s1")
    by (simp add: worker_start_def lim one_job_world_facts claimed_world_def)
  moreover have "worker_step run_env ?d ?s1 (busy_worker claimed_world Started)"
    using worker_drain [OF drain_step.spawn [of ?s1 the_job "[]" ?d run_env]]
    by (simp add: busy_worker_def one_job_world_facts)
  ultimately show ?thesis
    using worker_reachable.start worker_reachable.more by metis
qed

lemma run_pieces_results:
  "result (process_step run_env (example_deliverer 3) the_job Started) v = Running (Attempted 200 None)"
  "result (process_step run_env (example_deliverer 3) the_job (Attempted 200 None)) v = Running (Logged None)"
  "result (process_step run_env (example_deliverer 3) the_job (Logged None)) v = Exited Finished"
  by (simp_all add: process_step_def one_job_world_facts attempt_def run_simps run_env_def
      env_answering_def process_settle_def)

lemma run_advance:
  assumes "worker_reachable run_env (example_deliverer 3) w (busy_worker v pc)"
    and "result (process_step run_env (example_deliverer 3) the_job pc) v = Running pc'"
  shows "worker_reachable run_env (example_deliverer 3) w
    (busy_worker (after (process_step run_env (example_deliverer 3) the_job pc) v) pc')"
  using worker_reachable.more [OF assms(1) worker_drain [OF drain_step.advance
      [where gs = "[]" and hs = "[]" and pc' = pc']]] assms(2)
  by (simp add: busy_worker_def)

lemma run_logged:
  obtains v where "worker_reachable run_env (example_deliverer 3) one_job_world (busy_worker v (Logged None))"
  using run_advance [OF run_advance [OF run_started run_pieces_results(1)] run_pieces_results(2)] by blast

theorem no_double_processing_witness:
  "\<exists>t. queue_map (db_of claimed_world) 1 = Some (the_job, t)"
  using no_double_processing [OF run_started one_job_world_facts(1)]
  by (simp add: busy_worker_def the_job_def)

text \<open>C5: a job is never lost. While the worker is in operation, a step after which a queued job is
  no longer in the queue is one of three: its route is not configured any more, or the webhook of
  its route answered a request carrying its payload with a 2xx status, or this was the last
  attempt allowed.\<close>

theorem job_leaves_for_a_reason:
  assumes "worker_reachable E d w s" "db_ok (db_of w)" "\<not> wk_cancelled s" "wk_phase s \<noteq> Crashed"
    and "worker_step E d s s'"
    and "queue_map (db_of (wk_world s)) i = Some (j, t)" "queue_map (db_of (wk_world s')) i = None"
  shows "dv_routes d (jb_Route j) = None \<or> delivered d (wk_world s) j
    \<or> dl_max_retries (dv_cfg d) \<le> job_attempt j"
  using assms(5)
proof cases
  case own
  have inv: "worker_inv d s" using assms(1,2) by (rule worker_inv_reachable)
  from own_step_removes [OF inv _ own assms(6,7)] assms(3,4) show ?thesis by (simp add: operating_def)
next
  case (outside w')
  have "worker_inv d s" using assms(1,2) by (rule worker_inv_reachable)
  with outside assms(6,7) show ?thesis by (auto simp: outside_step_def worker_inv_def)
qed

theorem job_leaves_for_a_reason_witness:
  "\<exists>v. queue_map (db_of v) 1 \<noteq> None \<and> delivered (example_deliverer 3) v the_job"
proof -
  let ?d = "example_deliverer 3"
  obtain v where v: "worker_reachable run_env ?d one_job_world (busy_worker v (Logged None))"
    by (rule run_logged)
  let ?s = "busy_worker v (Logged None)"
  let ?w' = "after (process_step run_env ?d the_job (Logged None)) v"
  have inv: "worker_inv ?d ?s" using v one_job_world_facts(1) by (rule worker_inv_reachable)
  then obtain t where q: "queue_map (db_of v) 1 = Some (the_job, t)" and ok: "db_ok (db_of v)"
    by (auto simp: worker_inv_def operating_def jobs_ok_def active_jobs_def busy_worker_def)
  have step: "worker_step run_env ?d ?s (?s\<lparr>wk_world := ?w', wk_running := []\<rparr>)"
    using worker_drain [OF drain_step.finish [where s = ?s and gs = "[]" and hs = "[]"
          and g = "\<lparr>wg_sem = 1, wg_job = the_job, wg_pc = Logged None\<rparr>" and E = run_env and d = ?d]]
    by (simp add: busy_worker_def run_pieces_results)
  have "db_reliable run_env" by (simp add: run_env_def)
  then have gone: "queue_map (db_of ?w') 1 = None"
    using ok by (simp add: process_step_def process_settle_def CompleteJob_db jq.jobs_remove)
  from job_leaves_for_a_reason [OF v one_job_world_facts(1) _ _ step, of 1 the_job t] q gone
  show ?thesis
    by (auto simp: busy_worker_def one_job_world_facts job_attempt_def int64_def)
qed

text \<open>C20: a drain ends. With a positive concurrency and sane attempt counts, the goroutines and
  the drain loop can always run on to the point where the drain is over, and no schedule whatsoever
  takes more steps for it than four per waiting job, three per running one and two.\<close>

theorem drain_finishes:
  assumes "wk_phase s = Draining" "0 < dl_concurrency (dv_cfg d)"
    and "\<forall>j\<in>set (active_jobs s). 0 \<le> jb_Attempts j \<and> int64 (jb_Attempts j + 1)"
  shows "(\<exists>s'. (drain_step E d)\<^sup>*\<^sup>* s s' \<and> wk_phase s' = Idle \<and> wk_pending s' = [])
    \<and> (\<forall>n f. f 0 = s \<and> (\<forall>k<n. drain_step E d (f k) (f (Suc k))) \<longrightarrow>
         n \<le> 4 * length (wk_pending s) + 3 * length (wk_running s) + 2)"
proof -
  have "pc_weight pc \<le> 3" for pc by (cases pc) auto
  then have "sum_list (map (pc_weight \<circ> wg_pc) gs) \<le> 3 * length gs" for gs
    by (induction gs) (auto intro: add_mono)
  then have "drain_measure s \<le> 4 * length (wk_pending s) + 3 * length (wk_running s) + 2"
    using assms(1) by (simp add: drain_measure_def)
  then have "n \<le> 4 * length (wk_pending s) + 3 * length (wk_running s) + 2"
    if "f 0 = s" "\<forall>k<n. drain_step E d (f k) (f (Suc k))" for n f
    using drain_length [of f s n E d] that by (meson le_trans)
  moreover have "\<exists>s'. (drain_step E d)\<^sup>*\<^sup>* s s' \<and> wk_phase s' = Idle \<and> wk_pending s' = []"
    using assms(3) by (intro drain_reaches_idle [OF assms(1,2)]) (simp add: attempts_sane_def)
  ultimately show ?thesis by blast
qed

theorem drain_finishes_witness:
  "\<exists>s'. (drain_step run_env (example_deliverer 3))\<^sup>*\<^sup>* (busy_worker claimed_world Started) s'
     \<and> wk_phase s' = Idle"
  using drain_finishes [of "busy_worker claimed_world Started" "example_deliverer 3" run_env]
  by (auto simp: busy_worker_def one_job_world_facts active_jobs_def the_job_def int64_def)

end
