(* ===== verification/Login.thy ===== *)
theory Login
  imports Bridge_Prelude
begin

text \<open>
  \<^verbatim>\<open>internal/server/login.go\<close>: the server side of the SASL LOGIN mechanism. The authentication
  callback is a field of the Go struct, here an argument: a computation on whatever state the session
  has, which returns an error or none. A call of \<open>Next\<close> returns the challenge, whether the exchange
  is over, the error, and the updated mechanism.
\<close>

section \<open>The mechanism\<close>

record login_server =
  ln_username :: string
  ln_haveUser :: bool

definition newLoginServer :: login_server where
  "newLoginServer = \<lparr>ln_username = [], ln_haveUser = False\<rparr>"

definition login_Next ::
  "(string \<Rightarrow> string \<Rightarrow> ('s, 'e option) state) \<Rightarrow> login_server \<Rightarrow> bytes
    \<Rightarrow> ('s, (bytes \<times> bool \<times> 'e option) \<times> login_server) state" where
  "login_Next authenticate l response =
     (if \<not> ln_haveUser l then
        if response = [] then State_Monad.return ((''Username:'', False, None), l)
        else State_Monad.return
               ((''Password:'', False, None), l\<lparr>ln_username := response, ln_haveUser := True\<rparr>)
      else do {
        err \<leftarrow> authenticate (ln_username l) response;
        State_Monad.return
          (case err of Some e \<Rightarrow> ([], False, Some e) | None \<Rightarrow> ([], True, None), l)
      })"

section \<open>A whole exchange\<close>

text \<open>
  The SMTP library feeds the client's answers to \<open>Next\<close> one by one until the mechanism is done or
  fails. The trace is the list of challenges sent to the client; the outcome is \<open>None\<close> while the
  exchange is still open.
\<close>

fun login_exchange ::
  "(string \<Rightarrow> string \<Rightarrow> ('s, 'e option) state) \<Rightarrow> login_server \<Rightarrow> bytes list
    \<Rightarrow> ('s, bytes list \<times> 'e option option) state" where
  "login_exchange authenticate l [] = State_Monad.return ([], None)"
| "login_exchange authenticate l (r # rs) = do {
     x \<leftarrow> login_Next authenticate l r;
     (case x of ((challenge, done, err), l') \<Rightarrow>
        if err \<noteq> None \<or> done then State_Monad.return ([], Some err)
        else do {
          y \<leftarrow> login_exchange authenticate l' rs;
          State_Monad.return (challenge # fst y, snd y)
        })
   }"

lemma login_exchange_prompt:
  "result (login_exchange auth newLoginServer ([] # rs)) s
     = (''Username:'' # fst (result (login_exchange auth newLoginServer rs) s),
        snd (result (login_exchange auth newLoginServer rs) s))
   \<and> after (login_exchange auth newLoginServer ([] # rs)) s
     = after (login_exchange auth newLoginServer rs) s"
  by (simp add: newLoginServer_def login_Next_def)

lemma login_exchange_prompts:
  "result (login_exchange auth newLoginServer (replicate n [] @ rs)) s
     = (replicate n ''Username:'' @ fst (result (login_exchange auth newLoginServer rs) s),
        snd (result (login_exchange auth newLoginServer rs) s))
   \<and> after (login_exchange auth newLoginServer (replicate n [] @ rs)) s
     = after (login_exchange auth newLoginServer rs) s"
  by (induction n) (simp_all add: login_exchange_prompt del: login_exchange.simps)

text \<open>The credentials an exchange presents, if it comes to that: the first non-empty answer and the
  one after it.\<close>

fun login_presents :: "bytes list \<Rightarrow> (string \<times> string) option" where
  "login_presents [] = None"
| "login_presents (r # rs) =
     (if r = [] then login_presents rs
      else (case rs of [] \<Rightarrow> None | pw # _ \<Rightarrow> Some (r, pw)))"

lemma login_exchange_answer:
  "r \<noteq> [] \<Longrightarrow>
     result (login_exchange auth newLoginServer [r]) s = ([''Password:''], None)
     \<and> after (login_exchange auth newLoginServer [r]) s = s"
  "r \<noteq> [] \<Longrightarrow>
     result (login_exchange auth newLoginServer (r # pw # rs)) s = ([''Password:''], Some (result (auth r pw) s))
     \<and> after (login_exchange auth newLoginServer (r # pw # rs)) s = after (auth r pw) s"
  by (auto simp: newLoginServer_def login_Next_def split: option.splits)

text \<open>An exchange is exactly one call of the callback, on the credentials presented, or none.\<close>

lemma login_exchange_spec:
  "case login_presents rs of
     None \<Rightarrow> snd (result (login_exchange auth newLoginServer rs) s) = None
        \<and> after (login_exchange auth newLoginServer rs) s = s
   | Some (u, pw) \<Rightarrow> snd (result (login_exchange auth newLoginServer rs) s) = Some (result (auth u pw) s)
        \<and> after (login_exchange auth newLoginServer rs) s = after (auth u pw) s"
proof (induction rs)
  case (Cons r rs)
  show ?case
  proof (cases "r = []")
    case True
    with Cons show ?thesis
      by (simp only: login_exchange_prompt login_presents.simps True simp_thms if_True snd_conv)
  next
    case False
    then show ?thesis
      by (cases rs) (simp_all add: login_exchange_answer del: login_exchange.simps)
  qed
qed simp

section \<open>Contract: password authentication\<close>

text \<open>
  What the mechanism relies on of the session: the callback accepts exactly the credentials of a
  fixed table, and accepting them makes their user the session's user.
\<close>

locale authenticator =
  fixes authenticate :: "string \<Rightarrow> string \<Rightarrow> ('s, 'e option) state"
    and accepts :: "string \<Rightarrow> string \<Rightarrow> bool"
    and user_of :: "'s \<Rightarrow> string"
  assumes accepts_iff: "result (authenticate u pw) s = None \<longleftrightarrow> accepts u pw"
    and user_set: "accepts u pw \<Longrightarrow> user_of (after (authenticate u pw) s) = u"
    and user_kept: "\<not> accepts u pw \<Longrightarrow> user_of (after (authenticate u pw) s) = user_of s"
begin

text \<open>An exchange succeeds exactly when the credentials it presents are accepted, and only then does
  the session's user change.\<close>

lemma exchange_success:
  "snd (result (login_exchange authenticate newLoginServer rs) s) = Some None \<longleftrightarrow>
     (\<exists>u pw. login_presents rs = Some (u, pw) \<and> accepts u pw)"
proof (cases "login_presents rs")
  case (Some up)
  then show ?thesis
    using login_exchange_spec [where rs = rs and auth = authenticate and s = s]
    by (cases up) (simp add: accepts_iff)
qed (use login_exchange_spec [where rs = rs and auth = authenticate and s = s] in simp)

lemma exchange_user:
  "user_of (after (login_exchange authenticate newLoginServer rs) s) =
     (case login_presents rs of
        Some (u, pw) \<Rightarrow> if accepts u pw then u else user_of s
      | None \<Rightarrow> user_of s)"
  using login_exchange_spec [where rs = rs and auth = authenticate and s = s]
  by (auto simp: user_set user_kept split: option.splits)

end

section \<open>Properties\<close>

text \<open>C16: every way to run the exchange, by cases on the client's answers. Each empty answer before a
  username only brings another prompt for it; the first non-empty answer is the username and brings
  the prompt for the password; the answer after it, empty or not, ends the exchange in exactly one
  call of the authentication callback with both, whose outcome is the exchange's, and later answers
  are not looked at. Without a username, or without an answer after it, the callback is not called
  and the exchange stays open.\<close>

theorem login_flows:
  fixes auth :: "string \<Rightarrow> string \<Rightarrow> ('s, 'e option) state" and answers :: "bytes list"
  defines "prompts \<equiv> replicate (length (takeWhile (\<lambda>r. r = []) answers)) ''Username:''"
  shows "case dropWhile (\<lambda>r. r = []) answers of
      [] \<Rightarrow> result (login_exchange auth newLoginServer answers) s = (prompts, None)
        \<and> after (login_exchange auth newLoginServer answers) s = s
    | [user] \<Rightarrow> result (login_exchange auth newLoginServer answers) s = (prompts @ [''Password:''], None)
        \<and> after (login_exchange auth newLoginServer answers) s = s
    | user # pw # rest \<Rightarrow>
        result (login_exchange auth newLoginServer answers) s
          = (prompts @ [''Password:''], Some (result (auth user pw) s))
        \<and> after (login_exchange auth newLoginServer answers) s = after (auth user pw) s"
proof -
  let ?n = "length (takeWhile (\<lambda>r. r = []) answers)" and ?rest = "dropWhile (\<lambda>r. r = []) answers"
  have "takeWhile (\<lambda>r. r = []) answers = replicate ?n []"
    by (rule replicate_length_same [symmetric]) (auto dest: set_takeWhileD)
  then have split: "answers = replicate ?n [] @ ?rest" by (metis takeWhile_dropWhile_id)
  have first: "?rest = u # us \<Longrightarrow> u \<noteq> []" for u us using hd_dropWhile [of "\<lambda>r. r = []" answers] by force
  obtain rest where rest: "?rest = rest" by simp
  note run = login_exchange_prompts [of auth ?n ?rest s, folded split, unfolded rest]
  show ?thesis
  proof (cases rest rule: remdups_adj.cases)
    case 1
    with run show ?thesis unfolding rest by (simp add: prompts_def)
  next
    case (2 user)
    with run first rest login_exchange_answer(1) [of user auth s] show ?thesis
      unfolding rest by (simp add: prompts_def del: login_exchange.simps)
  next
    case (3 user pw more)
    with run first rest login_exchange_answer(2) [of user auth pw more s] show ?thesis
      unfolding rest by (simp add: prompts_def del: login_exchange.simps)
  qed
qed

theorem login_flows_witness:
  "result (login_exchange (\<lambda>u p. State (\<lambda>log. (if p = ''s3cret'' then None else Some ''no'', (u, p) # log)))
      newLoginServer [[], [], ''alice'', ''s3cret'', ''more'']) []
   = ([''Username:'', ''Username:'', ''Password:''], Some None)"
  using login_flows [where answers = "[[], [], ''alice'', ''s3cret'', ''more'']" and s = "[]"
      and auth = "\<lambda>u p. State (\<lambda>log. (if p = ''s3cret'' then None else Some ''no'', (u, p) # log))"]
  by (simp del: login_exchange.simps)

end
