(* ===== verification/Tlsconf.thy ===== *)
theory Tlsconf
  imports Config
begin

text \<open>
  \<^verbatim>\<open>internal/tlsconf/tlsconf.go\<close>: the TLS configuration shared by the listeners, from one of the
  three certificate sources. Loading a key pair and obtaining a certificate through ACME are library
  calls, arguments here, as is \<^verbatim>\<open>strconv.Quote\<close>: \<open>load_pair\<close> yields the certificate of two files or
  an error, and \<open>manage\<close> the error of certmagic's synchronous issuance for a setup, or else the
  application protocols in the configuration certmagic then builds.
\<close>

section \<open>The configuration built\<close>

record acme_setup =
  am_email :: string
  am_agreed :: bool
  am_token :: string
  am_storage :: string
  am_ca :: string
  am_hostnames :: "string list"

datatype 'c cert_source = StaticCertificates "'c list" | ManagedCertificates acme_setup

record 'c tls_config =
  tc_certs :: "'c cert_source"
  tc_next_protos :: "string list"

definition acme_of :: "string \<Rightarrow> tls \<Rightarrow> acme_setup" where
  "acme_of token c =
     \<lparr>am_email = tl_acme_email c, am_agreed = True, am_token = token, am_storage = tl_storage_path c,
      am_ca = tl_ca_dir_url c, am_hostnames = tl_hostnames c\<rparr>"

section \<open>Build\<close>

definition buildAuto ::
  "(string \<Rightarrow> string) \<Rightarrow> (acme_setup \<Rightarrow> string + string list) \<Rightarrow> tls \<Rightarrow> string + 'c tls_config option" where
  "buildAuto getenv manage c =
     (let token = (if tl_cf_api_token c = [] then getenv ''CLOUDFLARE_API_TOKEN'' else tl_cf_api_token c)
      in if token = []
         then Inl ''cloudflare API token missing (tls.cf_api_token or $CLOUDFLARE_API_TOKEN)''
         else (case manage (acme_of token c) of
                 Inl err \<Rightarrow> Inl (''manage certificate for ['' @ Join (tl_hostnames c) '' '' @ '']: '' @ err)
               | Inr protos \<Rightarrow>
                   (let tlsCfg = \<lparr>tc_certs = ManagedCertificates (acme_of token c),
                                   tc_next_protos = protos\<rparr>
                    in Inr (Some (tlsCfg\<lparr>tc_next_protos := []\<rparr>)))))"

definition Build ::
  "(string \<Rightarrow> string) \<Rightarrow> (string \<Rightarrow> string) \<Rightarrow> (string \<Rightarrow> string \<Rightarrow> string + 'c)
    \<Rightarrow> (acme_setup \<Rightarrow> string + string list) \<Rightarrow> tls \<Rightarrow> string + 'c tls_config option" where
  "Build getenv quote load_pair manage c =
     (if tl_mode c = CertModeNone then Inr None
      else if tl_mode c = CertModeFiles then
        (case load_pair (tl_cert_file c) (tl_key_file c) of
           Inl err \<Rightarrow> Inl (''load TLS keypair: '' @ err)
         | Inr cert \<Rightarrow> Inr (Some \<lparr>tc_certs = StaticCertificates [cert], tc_next_protos = []\<rparr>))
      else if tl_mode c = CertModeAuto then buildAuto getenv manage c
      else Inl (''unknown tls.mode '' @ quote (tl_mode c)))"

text \<open>A library call \<open>Build\<close> depends on failed: the key pair of the two files, or the issuance of a
  certificate for the configured host names with some token.\<close>

definition build_call_failed ::
  "(string \<Rightarrow> string \<Rightarrow> string + 'c) \<Rightarrow> (acme_setup \<Rightarrow> string + string list) \<Rightarrow> tls \<Rightarrow> bool" where
  "build_call_failed load_pair manage t \<longleftrightarrow>
     tl_mode t = CertModeFiles \<and> isl (load_pair (tl_cert_file t) (tl_key_file t))
     \<or> tl_mode t = CertModeAuto \<and> (\<exists>setup. isl (manage setup) \<and> am_token setup \<noteq> []
          \<and> am_hostnames setup = tl_hostnames t \<and> am_hostnames setup \<noteq> [])"

lemma Build_outcome:
  assumes "tls_ok getenv c" and "Build getenv quote load_pair manage (cf_tls c) = b"
  shows "(case b of
      Inr t \<Rightarrow> ((\<exists>l\<in>set (cf_listeners c). NeedsCert l) \<longrightarrow> t \<noteq> None)
        \<and> (\<forall>tc. t = Some tc \<longrightarrow> tc_next_protos tc = [])
    | Inl err \<Rightarrow> build_call_failed load_pair manage (cf_tls c))"
proof -
  let ?t = "cf_tls c"
  let ?tok = "if tl_cf_api_token ?t = [] then getenv ''CLOUDFLARE_API_TOKEN'' else tl_cf_api_token ?t"
  from assms(1) consider
      "tl_mode ?t = CertModeNone" "\<forall>l\<in>set (cf_listeners c). \<not> NeedsCert l"
    | "tl_mode ?t = CertModeFiles"
    | "tl_mode ?t = CertModeAuto" "tl_hostnames ?t \<noteq> []" "?tok \<noteq> []"
    by (auto simp: tls_ok_def Let_def split: if_splits)
  then show ?thesis
  proof cases
    case 3
    show ?thesis
    proof (cases "manage (acme_of ?tok ?t)")
      case (Inr protos)
      with 3 assms(2) show ?thesis by (auto simp: Build_def buildAuto_def build_call_failed_def mode_defs)
    next
      case (Inl err)
      with 3 have "isl b"
        using assms(2) by (auto simp: Build_def buildAuto_def build_call_failed_def mode_defs)
      moreover have "isl (manage (acme_of ?tok ?t))" "am_token (acme_of ?tok ?t) \<noteq> []"
        "am_hostnames (acme_of ?tok ?t) = tl_hostnames ?t"
        using Inl 3 by (simp_all add: acme_of_def)
      ultimately show ?thesis using 3 by (cases b) (auto simp: build_call_failed_def)
    qed
  qed (use assms(2) in \<open>auto simp: Build_def build_call_failed_def mode_defs split: sum.splits\<close>)
qed

section \<open>Properties\<close>

text \<open>C35: for a configuration that passed validation, building the TLS configuration fails only
  when a library call does, the loading of the key pair or the issuance. Otherwise a configuration with
  no certificate source, which then has no listener that needs one, gets none; with files it gets exactly
  the certificate loaded from the two configured files; and with ACME the certificates managed for the
  configured host names, e-mail, directory and storage, with a token that is not empty, the configured
  one before the environment's. No application protocol is ever advertised.\<close>

theorem Build_validated:
  assumes "tls_ok getenv c"
  defines "t \<equiv> cf_tls c"
  shows "case Build getenv quote load_pair manage t of
      Inl err \<Rightarrow> tl_mode t = CertModeFiles \<and> isl (load_pair (tl_cert_file t) (tl_key_file t))
        \<or> tl_mode t = CertModeAuto \<and> (\<exists>setup. isl (manage setup) \<and> am_token setup \<noteq> []
            \<and> am_hostnames setup = tl_hostnames t \<and> am_hostnames setup \<noteq> [])
    | Inr None \<Rightarrow> tl_mode t = CertModeNone \<and> \<not> (\<exists>l\<in>set (cf_listeners c). NeedsCert l)
    | Inr (Some tc) \<Rightarrow> tc_next_protos tc = []
        \<and> (tl_mode t = CertModeFiles
             \<and> (\<exists>cert. load_pair (tl_cert_file t) (tl_key_file t) = Inr cert
                  \<and> tc_certs tc = StaticCertificates [cert])
           \<or> tl_mode t = CertModeAuto
             \<and> (\<exists>setup. \<not> isl (manage setup) \<and> tc_certs tc = ManagedCertificates setup
                  \<and> am_hostnames setup = tl_hostnames t \<and> tl_hostnames t \<noteq> [] \<and> am_token setup \<noteq> []
                  \<and> am_token setup = (if tl_cf_api_token t = [] then getenv ''CLOUDFLARE_API_TOKEN''
                                       else tl_cf_api_token t)
                  \<and> am_email setup = tl_acme_email t \<and> am_storage setup = tl_storage_path t
                  \<and> am_ca setup = tl_ca_dir_url t \<and> am_agreed setup))"
proof -
  let ?b = "Build getenv quote load_pair manage t"
  note outcome = Build_outcome [OF assms(1) refl, where quote = quote and load_pair = load_pair and manage = manage, folded t_def]
  from assms(1) have auto: "tl_mode t = CertModeAuto \<Longrightarrow> tl_hostnames t \<noteq> []
      \<and> (if tl_cf_api_token t = [] then getenv ''CLOUDFLARE_API_TOKEN'' else tl_cf_api_token t) \<noteq> []"
    by (auto simp: tls_ok_def t_def mode_defs split: if_splits)
  show ?thesis
  proof (cases ?b)
    case (Inl err)
    with outcome show ?thesis by (simp add: build_call_failed_def)
  next
    case (Inr x)
    show ?thesis
    proof (cases x)
      case None
      with Inr outcome have "\<not> (\<exists>l\<in>set (cf_listeners c). NeedsCert l)" by simp
      moreover have "tl_mode t = CertModeNone"
        using Inr None by (auto simp: Build_def buildAuto_def Let_def split: if_splits sum.splits)
      ultimately show ?thesis using Inr None by simp
    next
      case (Some tc)
      with Inr auto show ?thesis
        by (auto simp: Build_def buildAuto_def acme_of_def Let_def mode_defs split: if_splits sum.splits)
    qed
  qed
qed

definition files_config :: config where
  "files_config =
     \<lparr>cf_listeners = [\<lparr>ls_address = '':465'', ls_tls = ''implicit'', ls_insecure_auth = False\<rparr>],
      cf_hostname = ''mx'', cf_max_message_bytes = 1000, cf_read_timeout = second,
      cf_write_timeout = second,
      cf_tls = \<lparr>tl_mode = ''files'', tl_cert_file = ''c.pem'', tl_key_file = ''k.pem'',
        tl_hostnames = [], tl_acme_email = [], tl_dns_provider = [], tl_cf_api_token = [],
        tl_ca_dir_url = [], tl_storage_path = []\<rparr>,
      cf_auth = \<lparr>au_allow_ips = []\<rparr>,
      cf_logging = \<lparr>lg_enabled = True, lg_database = ''d'', lg_rejections = None,
        lg_rejection_retention_days = 0\<rparr>,
      cf_web = \<lparr>wb_listen = []\<rparr>,
      cf_delivery = \<lparr>dl_default_mode = ''async'', dl_timeout = second, dl_max_retries = 5,
        dl_retry_backoff = second, dl_concurrency = 4\<rparr>,
      cf_routes = []\<rparr>"

theorem Build_validated_witness:
  "\<exists>t. Build (\<lambda>_. []) id (\<lambda>c k. Inr (c, k)) (\<lambda>_. Inr []) (cf_tls files_config) = Inr (Some t)
     \<and> tc_certs t = StaticCertificates [(''c.pem'', ''k.pem'')]"
proof -
  have "tls_ok (\<lambda>_. []) files_config" by (simp add: tls_ok_def files_config_def mode_defs)
  from Build_validated [OF this, where quote = id
      and load_pair = "\<lambda>c k. Inr (c, k)" and manage = "\<lambda>_. Inr []"] show ?thesis
    by (auto simp: files_config_def mode_defs NeedsCert_def split: sum.splits option.splits)
qed

end
