(* ===== verification/Server.thy ===== *)
theory Server
  imports Router Worker Login Tlsconf
begin

text \<open>
  \<^verbatim>\<open>internal/server/server.go\<close>: the backend built from the configuration, the listeners, and the SMTP
  session with its method per command.

  A session method works on the session and the world; both are the state of its computation. The
  SMTP library decides when a method is called and turns the error returned into the reply; no order
  of calls is assumed. \<open>Data\<close> takes the outcome of reading the client's data: the bytes, or the
  reader's error, which is the SMTP library's, such as the SMTP error for an oversized message, or one
  of the connection. Lines written to the log are left out.
\<close>

section \<open>Backend and session\<close>

record credential =
  cr_password :: string
  cr_passwordBcrypt :: string

record backend =
  bk_cfg :: config
  bk_routes :: "route list"
  bk_deliverer :: deliverer
  bk_store :: store
  bk_users :: "string \<Rightarrow> credential option"
  bk_allowNets :: "ipnet list"

text \<open>An error a method returns: an SMTP error, or any other Go error, with its text.\<close>

datatype session_error = SMTPError smtp_error | OtherError string

record session =
  ss_remote :: string
  ss_localPort :: int
  ss_username :: string
  ss_from :: string
  ss_rcpts :: "(string \<times> route) list"

definition credential_of :: "route \<Rightarrow> credential" where
  "credential_of r = \<lparr>cr_password = rt_password r, cr_passwordBcrypt = rt_password_bcrypt r\<rparr>"

definition users_of :: "route list \<Rightarrow> string \<Rightarrow> credential option" where
  "users_of rs = fold (\<lambda>r m. m(rt_username r \<mapsto> credential_of r)) rs Map.empty"

fun parse_nets :: "string list \<Rightarrow> ipnet list option" where
  "parse_nets [] = Some []"
| "parse_nets (cidr # cs) =
     (case ParseCIDR cidr of
        None \<Rightarrow> None
      | Some n \<Rightarrow> map_option (\<lambda>ns. n # ns) (parse_nets cs))"

definition new_backend :: "config \<Rightarrow> deliverer \<Rightarrow> store \<Rightarrow> backend option" where
  "new_backend cfg d st =
     map_option
       (\<lambda>nets. \<lparr>bk_cfg = cfg, bk_routes = cf_routes cfg, bk_deliverer = d, bk_store = st,
          bk_users = users_of (cf_routes cfg), bk_allowNets = nets\<rparr>)
       (parse_nets (au_allow_ips (cf_auth cfg)))"

section \<open>Computations of a session\<close>

type_synonym 'a session_op = "(session \<times> world, 'a) state"

definition in_world :: "(world, 'a) state \<Rightarrow> 'a session_op" where
  "in_world m = State (\<lambda>(s, w). (result m w, (s, after m w)))"

definition get_session :: "session session_op" where
  "get_session = State (\<lambda>(s, w). (s, (s, w)))"

definition set_session :: "(session \<Rightarrow> session) \<Rightarrow> unit session_op" where
  "set_session f = State (\<lambda>(s, w). ((), (f s, w)))"

lemma in_world_simps [simp]:
  "result (in_world m) sw = result m (snd sw)" "after (in_world m) sw = (fst sw, after m (snd sw))"
  by (simp_all add: in_world_def case_prod_beta)

lemma session_simps [simp]:
  "result get_session sw = fst sw" "after get_session sw = sw"
  "after (set_session f) sw = (f (fst sw), snd sw)"
  by (simp_all add: get_session_def set_session_def case_prod_beta)

section \<open>Rejections\<close>

definition recordRejection ::
  "env \<Rightarrow> backend \<Rightarrow> string \<Rightarrow> string \<Rightarrow> int \<Rightarrow> string \<Rightarrow> string \<Rightarrow> string \<Rightarrow> smtp_error
    \<Rightarrow> (world, unit) state" where
  "recordRejection E b stage remote port username from rcpt e = do {
     now \<leftarrow> time_Now E;
     _ \<leftarrow> LogRejection E (bk_store b)
       \<lparr>re_ID = 0, re_At = now, re_Stage = stage, re_Code = se_Code e, re_RemoteAddr = remote,
        re_Username = username, re_From = from, re_Rcpt = rcpt, re_Reason = se_Message e,
        re_Port = port\<rparr>;
     State_Monad.return ()
   }"

definition reject ::
  "env \<Rightarrow> backend \<Rightarrow> string \<Rightarrow> string \<Rightarrow> smtp_error \<Rightarrow> session_error option session_op" where
  "reject E b stage rcpt e = do {
     s \<leftarrow> get_session;
     _ \<leftarrow> in_world (recordRejection E b stage (ss_remote s) (ss_localPort s) (ss_username s)
            (ss_from s) rcpt e);
     State_Monad.return (Some (SMTPError e))
   }"

section \<open>Connecting\<close>

datatype local_addr = TCPAddr int | OtherAddr string

text \<open>\<^verbatim>\<open>n, _ := strconv.Atoi(p)\<close>: the value that goes with the error, 0 for a syntax error and the
  nearest \<^verbatim>\<open>int\<close> for a number out of range.\<close>

definition Atoi_value :: "bytes \<Rightarrow> int" where
  "Atoi_value p =
     (case ParseInt p of
        Some n \<Rightarrow> n
      | None \<Rightarrow>
          let neg = (p \<noteq> [] \<and> hd p = CHR ''-'');
              ds = (if p \<noteq> [] \<and> (hd p = CHR ''-'' \<or> hd p = CHR ''+'') then tl p else p)
          in if ds = [] \<or> dec_value 0 ds = None then 0
             else if neg then - (2 ^ 63) else 2 ^ 63 - 1)"

definition localPort :: "local_addr \<Rightarrow> int" where
  "localPort a =
     (case a of
        TCPAddr p \<Rightarrow> p
      | OtherAddr hp \<Rightarrow> Atoi_value (snd (SplitHostPort hp)))"

definition ipAllowed :: "backend \<Rightarrow> nat list \<Rightarrow> bool" where
  "ipAllowed b ip \<longleftrightarrow> list_ex (\<lambda>n. net_contains n ip) (bk_allowNets b)"

definition err_not_permitted :: smtp_error where
  "err_not_permitted =
     \<lparr>se_Code = 550, se_EnhancedCode = (5, 7, 1), se_Message = ''connection not permitted''\<rparr>"

definition new_session :: "string \<Rightarrow> int \<Rightarrow> session" where
  "new_session remote port =
     \<lparr>ss_remote = remote, ss_localPort = port, ss_username = [], ss_from = [], ss_rcpts = []\<rparr>"

definition NewSession ::
  "env \<Rightarrow> backend \<Rightarrow> string \<Rightarrow> local_addr \<Rightarrow> (world, smtp_error + session) state" where
  "NewSession E b remote laddr =
     (let port = localPort laddr;
          permitted =
            (if bk_allowNets b = [] then True
             else (case ParseIP (fst (SplitHostPort remote)) of
                     None \<Rightarrow> False
                   | Some ip \<Rightarrow> ipAllowed b ip))
      in if \<not> permitted then do {
           _ \<leftarrow> recordRejection E b ''connect'' remote port [] [] [] err_not_permitted;
           State_Monad.return (Inl err_not_permitted)
         }
         else State_Monad.return (Inr (new_session remote port)))"

section \<open>Authentication\<close>

definition errAuthFailed :: smtp_error where
  "errAuthFailed =
     \<lparr>se_Code = 535, se_EnhancedCode = (5, 7, 8), se_Message = ''authentication failed''\<rparr>"

definition checkPassword :: "env \<Rightarrow> credential \<Rightarrow> string \<Rightarrow> bool" where
  "checkPassword E c password =
     (if cr_passwordBcrypt c \<noteq> [] then env_bcrypt E (cr_passwordBcrypt c) password
      else ConstantTimeCompare (cr_password c) password = 1)"

text \<open>The closure \<^verbatim>\<open>validate\<close> of \<^verbatim>\<open>Auth\<close>. The comparison with a dummy hash has no result.\<close>

definition validate ::
  "env \<Rightarrow> backend \<Rightarrow> string \<Rightarrow> string \<Rightarrow> session_error option session_op" where
  "validate E b username password = do {
     s \<leftarrow> get_session;
     (case bk_users b username of
        None \<Rightarrow> do {
          _ \<leftarrow> in_world (recordRejection E b ''auth'' (ss_remote s) (ss_localPort s) username [] []
                 errAuthFailed);
          State_Monad.return (Some (SMTPError errAuthFailed))
        }
      | Some u \<Rightarrow>
          if \<not> checkPassword E u password then do {
            _ \<leftarrow> in_world (recordRejection E b ''auth'' (ss_remote s) (ss_localPort s) username [] []
                   errAuthFailed);
            State_Monad.return (Some (SMTPError errAuthFailed))
          }
          else do {
            _ \<leftarrow> set_session (\<lambda>s. s\<lparr>ss_username := username\<rparr>);
            State_Monad.return None
          })
   }"

definition sasl_Plain :: string where "sasl_Plain = ''PLAIN''"
definition sasl_Login :: string where "sasl_Login = ''LOGIN''"

definition AuthMechanisms :: "string list" where
  "AuthMechanisms = [sasl_Plain, sasl_Login]"

text \<open>What \<^verbatim>\<open>Auth\<close> hands to the SMTP library: the PLAIN server of the SASL library around a callback on
  identity, username and password, or the LOGIN mechanism of this package.\<close>

datatype sasl_server =
    PlainServer "string \<Rightarrow> string \<Rightarrow> string \<Rightarrow> session_error option session_op"
  | LoginServer "string \<Rightarrow> string \<Rightarrow> session_error option session_op" login_server

definition Auth :: "env \<Rightarrow> backend \<Rightarrow> string \<Rightarrow> session_error + sasl_server" where
  "Auth E b mech =
     (if mech = sasl_Plain then Inr (PlainServer (\<lambda>identity. validate E b))
      else if mech = sasl_Login then Inr (LoginServer (validate E b) newLoginServer)
      else Inl (SMTPError (env_auth_unsupported E)))"

section \<open>Envelope\<close>

definition err_auth_required :: smtp_error where
  "err_auth_required =
     \<lparr>se_Code = 530, se_EnhancedCode = (5, 7, 0), se_Message = ''authentication required''\<rparr>"

definition Mail :: "env \<Rightarrow> backend \<Rightarrow> string \<Rightarrow> session_error option session_op" where
  "Mail E b from = do {
     s \<leftarrow> get_session;
     if ss_username s = [] then reject E b ''mail'' [] err_auth_required
     else do {
       _ \<leftarrow> set_session (\<lambda>s. s\<lparr>ss_from := from\<rparr>);
       State_Monad.return None
     }
   }"

definition err_no_route :: smtp_error where
  "err_no_route =
     \<lparr>se_Code = 550, se_EnhancedCode = (5, 1, 1), se_Message = ''no route configured for recipient''\<rparr>"

definition Rcpt :: "env \<Rightarrow> backend \<Rightarrow> string \<Rightarrow> session_error option session_op" where
  "Rcpt E b rcpt = do {
     s \<leftarrow> get_session;
     (case Match (env_fold E) (bk_routes b) (ss_username s) rcpt of
        None \<Rightarrow> reject E b ''rcpt'' rcpt err_no_route
      | Some route \<Rightarrow> do {
          _ \<leftarrow> set_session (\<lambda>s. s\<lparr>ss_rcpts := ss_rcpts s @ [(rcpt, route)]\<rparr>);
          State_Monad.return None
        })
   }"

definition Reset :: "unit session_op" where
  "Reset = set_session (\<lambda>s. s\<lparr>ss_from := [], ss_rcpts := []\<rparr>)"

definition Logout :: "session_error option session_op" where
  "Logout = State_Monad.return None"

section \<open>Data\<close>

definition rcptAddrs :: "session \<Rightarrow> string list" where
  "rcptAddrs s = map fst (ss_rcpts s)"

text \<open>The distinct matched routes: their names in first-seen order and the map from name to route.\<close>

fun matched_routes ::
  "string list \<times> (string \<Rightarrow> route option) \<Rightarrow> (string \<times> route) list
    \<Rightarrow> string list \<times> (string \<Rightarrow> route option)" where
  "matched_routes (order, m) [] = (order, m)"
| "matched_routes (order, m) ((addr, route) # rcs) =
     (if m (rt_name route) = None
      then matched_routes (order @ [rt_name route], m(rt_name route \<mapsto> route)) rcs
      else matched_routes (order, m) rcs)"

definition err_downstream :: "env \<Rightarrow> string \<Rightarrow> int \<Rightarrow> smtp_error" where
  "err_downstream E name code =
     \<lparr>se_Code = 451, se_EnhancedCode = (4, 3, 0),
      se_Message = ''downstream webhook for route '' @ env_quote E name
        @ '' rejected message (status '' @ Itoa code @ ''), try again later''\<rparr>"

definition err_queuing :: smtp_error where
  "err_queuing =
     \<lparr>se_Code = 451, se_EnhancedCode = (4, 3, 0), se_Message = ''temporary failure queuing message''\<rparr>"

text \<open>The loop over the distinct routes: it delivers to the sync ones and collects the async ones, and
  a failed delivery ends it with an error.\<close>

fun sync_phase ::
  "env \<Rightarrow> backend \<Rightarrow> (route \<Rightarrow> payload) \<Rightarrow> route list \<Rightarrow> route list
    \<Rightarrow> (session_error + route list) session_op" where
  "sync_phase E b payload_for [] asyncRoutes = State_Monad.return (Inr asyncRoutes)"
| "sync_phase E b payload_for (route # rest) asyncRoutes =
     (if \<not> HasWebhook route then sync_phase E b payload_for rest asyncRoutes
      else if EffectiveMode route (dl_default_mode (cf_delivery (bk_cfg b))) = ModeSync then do {
        ce \<leftarrow> in_world (DeliverSync E (bk_deliverer b) route (payload_for route));
        if snd ce \<noteq> None then do {
          s \<leftarrow> get_session;
          e \<leftarrow> reject E b ''data'' (Join (rcptAddrs s) '','') (err_downstream E (rt_name route) (fst ce));
          State_Monad.return (Inl (the e))
        }
        else sync_phase E b payload_for rest asyncRoutes
      }
      else sync_phase E b payload_for rest (asyncRoutes @ [route]))"

fun enqueue_phase ::
  "env \<Rightarrow> backend \<Rightarrow> (route \<Rightarrow> payload) \<Rightarrow> route list \<Rightarrow> session_error option session_op" where
  "enqueue_phase E b payload_for [] = State_Monad.return None"
| "enqueue_phase E b payload_for (route # rest) = do {
     err \<leftarrow> in_world (EnqueuePayload E (payload_for route));
     if err \<noteq> None then do {
       s \<leftarrow> get_session;
       reject E b ''data'' (Join (rcptAddrs s) '','') err_queuing
     }
     else enqueue_phase E b payload_for rest
   }"

definition message_log_of ::
  "session \<Rightarrow> string \<Rightarrow> int \<Rightarrow> string list \<Rightarrow> message \<Rightarrow> bytes \<Rightarrow> message_log" where
  "message_log_of s i receivedAt order msg raw =
     \<lparr>lg_ID = i, lg_ReceivedAt = receivedAt, lg_From = ss_from s, lg_Rcpt = rcptAddrs s,
      lg_Route = Join order '','', lg_Subject = mg_subject msg, lg_Size = int (length raw),
      lg_RemoteAddr = ss_remote s, lg_Username = ss_username s, lg_Port = ss_localPort s,
      lg_Raw = raw\<rparr>"

definition Data :: "env \<Rightarrow> backend \<Rightarrow> session_error + bytes \<Rightarrow> session_error option session_op" where
  "Data E b read =
     (case read of
        Inl err \<Rightarrow> State_Monad.return (Some err)
      | Inr raw \<Rightarrow> do {
          receivedAt \<leftarrow> in_world (time_Now E);
          i \<leftarrow> in_world (new_uuid E);
          s \<leftarrow> get_session;
          let msg = Parse (env_read E) (ss_from s) (rcptAddrs s) raw;
          let (order, routes) = matched_routes ([], Map.empty) (ss_rcpts s);
          _ \<leftarrow> in_world (LogMessage E (bk_store b) (message_log_of s i receivedAt order msg raw));
          let payload_for = (\<lambda>route. BuildPayload i receivedAt route msg);
          r \<leftarrow> sync_phase E b payload_for (map (\<lambda>name. the (routes name)) order) [];
          (case r of
             Inl e \<Rightarrow> State_Monad.return (Some e)
           | Inr asyncRoutes \<Rightarrow> enqueue_phase E b payload_for asyncRoutes)
        })"

end
