(* ===== verification/Session.thy ===== *)
theory Session
  imports Server
begin

text \<open>
  What the SMTP session guarantees: who gets in, what a command sequence can cause, what an accepted
  and a refused message leave behind, and that a session is a well-behaved neighbour of the delivery
  worker. A client is any list of commands, in any order.
\<close>

section \<open>Commands\<close>

text \<open>\<open>CmdAuth\<close> asks for a mechanism and sends nothing for it; \<open>CmdPlain\<close> and \<open>CmdLogin\<close> go through
  with the two that there are.\<close>

datatype command =
    CmdAuth string
  | CmdPlain string string string
  | CmdLogin "bytes list"
  | CmdMail string
  | CmdRcpt string
  | CmdData "session_error + bytes"
  | CmdReset
  | CmdLogout

fun exec_command :: "env \<Rightarrow> backend \<Rightarrow> command \<Rightarrow> session_error option session_op" where
  "exec_command E b (CmdAuth mech) =
     State_Monad.return (case Auth E b mech of Inl err \<Rightarrow> Some err | Inr server \<Rightarrow> None)"
| "exec_command E b (CmdPlain identity u pw) =
     (case Auth E b sasl_Plain of
        Inr (PlainServer callback) \<Rightarrow> callback identity u pw
      | _ \<Rightarrow> State_Monad.return (Some (SMTPError (env_auth_unsupported E))))"
| "exec_command E b (CmdLogin answers) =
     (case Auth E b sasl_Login of
        Inr (LoginServer callback l) \<Rightarrow> do {
          x \<leftarrow> login_exchange callback l answers;
          State_Monad.return (case snd x of Some err \<Rightarrow> err | None \<Rightarrow> None)
        }
      | _ \<Rightarrow> State_Monad.return (Some (SMTPError (env_auth_unsupported E))))"
| "exec_command E b (CmdMail from) = Mail E b from"
| "exec_command E b (CmdRcpt rcpt) = Rcpt E b rcpt"
| "exec_command E b (CmdData read) = Data E b read"
| "exec_command E b CmdReset = do { _ \<leftarrow> Reset; State_Monad.return None }"
| "exec_command E b CmdLogout = Logout"

fun run_commands :: "env \<Rightarrow> backend \<Rightarrow> command list \<Rightarrow> session_error option list session_op" where
  "run_commands E b [] = State_Monad.return []"
| "run_commands E b (c # cs) = do {
     r \<leftarrow> exec_command E b c;
     rs \<leftarrow> run_commands E b cs;
     State_Monad.return (r # rs)
   }"

lemma exec_auth [simp]:
  "exec_command E b (CmdPlain identity u pw) = validate E b u pw"
  "exec_command E b (CmdLogin answers) = do {
     x \<leftarrow> login_exchange (validate E b) newLoginServer answers;
     State_Monad.return (case snd x of Some err \<Rightarrow> err | None \<Rightarrow> None)
   }"
  by (simp_all add: Auth_def sasl_Plain_def sasl_Login_def)

declare exec_command.simps(2,3) [simp del]

section \<open>Frames\<close>

lemma keeps_recordRejection [intro!, simp]:
  "keeps queue_part (recordRejection E b st r p u f a e)"
  "keeps message_part (recordRejection E b st r p u f a e)"
  "keeps http_sent (recordRejection E b st r p u f a e)"
  by (auto simp: recordRejection_def queue_part_def message_part_def intro!: keeps_bind)

lemma preserves_db_recordRejection [intro!, simp]:
  "preserves_db (recordRejection E b st r p u f a e)"
  by (auto simp: recordRejection_def intro!: preserves_bind)

lemma keeps_rejection_delivery [intro!, simp]:
  "keeps rejection_part (LogMessage E s m)" "keeps rejection_part (LogDelivery E s mid rt a c ok err)"
  "keeps rejection_part (Enqueue E mid rt p)" "keeps rejection_part (DeliverSync E d route pl)"
  "keeps rejection_part (EnqueuePayload E pl)" "keeps rejection_part (time_Now E)"
  "keeps rejection_part (new_uuid E)"
  by (auto simp: DeliverSync_def EnqueuePayload_def LogMessage_def LogDelivery_def Enqueue_def
      keeps_def rejection_part_def after_db_exec run_simps sql_defs
      split: sum.splits option.splits) (simp_all add: keepsD attempt_def run_simps split: option.splits)

text \<open>A session method leaves the session alone but for its own assignments.\<close>

lemma session_reject [simp]:
  "fst (after (reject E b st a e) sw) = fst sw" "result (reject E b st a e) sw = Some (SMTPError e)"
  by (simp_all add: reject_def)

lemma session_sync_phase [simp]: "fst (after (sync_phase E b pf rs acc) sw) = fst sw"
  by (induction rs arbitrary: sw acc) auto

lemma session_enqueue_phase [simp]: "fst (after (enqueue_phase E b pf rs) sw) = fst sw"
  by (induction rs arbitrary: sw) auto

lemma session_Data [simp]: "fst (after (Data E b rd) sw) = fst sw"
  by (auto simp: Data_def Let_def case_prod_beta split: sum.splits)

section \<open>Authentication\<close>

definition accepts_password :: "env \<Rightarrow> backend \<Rightarrow> string \<Rightarrow> string \<Rightarrow> bool" where
  "accepts_password E b u pw \<longleftrightarrow> (case bk_users b u of None \<Rightarrow> False | Some c \<Rightarrow> checkPassword E c pw)"

lemma validate_accepts:
  "accepts_password E b u pw \<Longrightarrow>
     result (validate E b u pw) sw = None \<and> after (validate E b u pw) sw = ((fst sw)\<lparr>ss_username := u\<rparr>, snd sw)"
  by (auto simp: validate_def accepts_password_def split: option.splits)

lemma validate_refuses:
  "\<not> accepts_password E b u pw \<Longrightarrow>
     result (validate E b u pw) sw = Some (SMTPError errAuthFailed)
     \<and> after (validate E b u pw) sw = (fst sw, after (recordRejection E b ''auth''
          (ss_remote (fst sw)) (ss_localPort (fst sw)) u [] [] errAuthFailed) (snd sw))"
  by (auto simp: validate_def accepts_password_def split: option.splits)

interpretation au: authenticator "validate E b" "accepts_password E b" "\<lambda>sw. ss_username (fst sw)" for E b
proof
  fix u pw sw
  show "(result (validate E b u pw) sw = None) = accepts_password E b u pw"
    using validate_accepts validate_refuses by (metis option.distinct(1))
qed (simp_all add: validate_accepts validate_refuses)

text \<open>A login exchange is one call of \<open>validate\<close>, or nothing.\<close>

lemma login_command:
  "case login_presents as of
     None \<Rightarrow> result (exec_command E b (CmdLogin as)) sw = None \<and> after (exec_command E b (CmdLogin as)) sw = sw
   | Some (u, pw) \<Rightarrow> result (exec_command E b (CmdLogin as)) sw = result (validate E b u pw) sw
       \<and> after (exec_command E b (CmdLogin as)) sw = after (validate E b u pw) sw"
  using login_exchange_spec [where rs = as and auth = "validate E b" and s = sw]
  by (cases "login_presents as") auto

section \<open>Users\<close>

lemma users_of_fold:
  "fold (\<lambda>r m. m(rt_username r \<mapsto> credential_of r)) rs m u =
     (case find (\<lambda>r. rt_username r = u) (rev rs) of None \<Rightarrow> m u | Some r \<Rightarrow> Some (credential_of r))"
  by (induction rs arbitrary: m) (auto simp: find_append split: option.splits)

lemma users_of_Some:
  "users_of rs u = Some c \<Longrightarrow> \<exists>r\<in>set rs. rt_username r = u \<and> c = credential_of r"
  by (auto simp: users_of_def users_of_fold split: option.splits dest!: find_Some_in)

lemma users_of_None: "users_of rs u = None \<longleftrightarrow> (\<forall>r\<in>set rs. rt_username r \<noteq> u)"
  by (auto simp: users_of_def users_of_fold find_None_iff split: option.splits dest!: find_Some_in)

lemma route_cred_inj:
  assumes "route_cred r = route_cred r'" "nul \<notin> set (rt_password r)" "nul \<notin> set (rt_password r')"
  shows "credential_of r = credential_of r'"
proof -
  have "takeWhile (\<lambda>c. c \<noteq> nul) (p @ [nul] @ h) = p \<and> dropWhile (\<lambda>c. c \<noteq> nul) (p @ [nul] @ h) = nul # h"
    if "nul \<notin> set p" for p h
    using that by (induction p) auto
  from this [OF assms(2)] this [OF assms(3)] assms(1) show ?thesis
    unfolding route_cred_def credential_of_def by (metis list.inject)
qed

section \<open>The matched routes of a message\<close>

definition distinct_routes :: "(string \<times> route) list \<Rightarrow> route list" where
  "distinct_routes rcs = (let (order, routes) = matched_routes ([], Map.empty) rcs
     in map (\<lambda>name. the (routes name)) order)"

lemma matched_routes_spec:
  assumes "dom m = set order"
  shows "fst (matched_routes (order, m) rcs) = first_seen order (map (rt_name \<circ> snd) rcs)
    \<and> dom (snd (matched_routes (order, m) rcs)) = set order \<union> (rt_name \<circ> snd) ` set rcs
    \<and> (\<forall>n rt. snd (matched_routes (order, m) rcs) n = Some rt \<longrightarrow>
         m n = Some rt \<or> rt_name rt = n \<and> rt \<in> snd ` set rcs)"
  using assms
proof (induction "(order, m)" rcs arbitrary: order m rule: matched_routes.induct)
  case (2 order m addr route rcs)
  show ?case
  proof (cases "m (rt_name route) = None")
    case True
    then have "dom (m(rt_name route \<mapsto> route)) = set (order @ [rt_name route])" using 2(3) by auto
    note IH = 2(1) [OF True this]
    have "m n = Some rt \<or> rt_name rt = n \<and> rt \<in> snd ` set ((addr, route) # rcs)"
      if "snd (matched_routes (order @ [rt_name route], m(rt_name route \<mapsto> route)) rcs) n = Some rt"
      for n rt
    proof -
      from IH that have "(m(rt_name route \<mapsto> route)) n = Some rt
          \<or> rt_name rt = n \<and> rt \<in> snd ` set rcs" by blast
      then show ?thesis by (auto split: if_splits)
    qed
    moreover have "rt_name route \<notin> set order" using True 2(3) by blast
    ultimately show ?thesis using IH True by (simp add: insert_commute)
  next
    case False
    then have "rt_name route \<in> set order" using 2(3) by auto
    with 2(2) [OF False 2(3)] False 2(3) show ?thesis by auto
  qed
qed simp

lemma distinct_routes_names: "map rt_name (distinct_routes rcs) = first_seen [] (map (rt_name \<circ> snd) rcs)"
  and distinct_routes_sub: "set (distinct_routes rcs) \<subseteq> snd ` set rcs"
proof -
  let ?o = "fst (matched_routes ([], Map.empty) rcs)" and ?m = "snd (matched_routes ([], Map.empty) rcs)"
  have s: "?o = first_seen [] (map (rt_name \<circ> snd) rcs)" "dom ?m = (rt_name \<circ> snd) ` set rcs"
    "\<And>n rt. ?m n = Some rt \<Longrightarrow> rt_name rt = n \<and> rt \<in> snd ` set rcs"
    using matched_routes_spec [of Map.empty "[]" rcs] by auto
  have d: "distinct_routes rcs = map (\<lambda>n. the (?m n)) ?o"
    by (simp add: distinct_routes_def case_prod_beta)
  have ex: "\<exists>rt. ?m n = Some rt" if "n \<in> set ?o" for n
    using that s(1,2) by auto
  then have named: "rt_name (the (?m n)) = n \<and> the (?m n) \<in> snd ` set rcs" if "n \<in> set ?o" for n
    using that s(3) by fastforce
  then have "map rt_name (distinct_routes rcs) = map id ?o"
    unfolding d map_map by (intro map_cong) auto
  then show "map rt_name (distinct_routes rcs) = first_seen [] (map (rt_name \<circ> snd) rcs)"
    by (simp add: s(1))
  show "set (distinct_routes rcs) \<subseteq> snd ` set rcs" using named by (auto simp: d)
qed

lemma set_distinct_routes:
  assumes "inj_on rt_name (snd ` set rcs)"
  shows "set (distinct_routes rcs) = snd ` set rcs"
proof (rule antisym [OF distinct_routes_sub subsetI])
  fix rt
  assume rt: "rt \<in> snd ` set rcs"
  have "rt_name ` set (distinct_routes rcs) = (rt_name \<circ> snd) ` set rcs"
    using arg_cong [OF distinct_routes_names, of set rcs] by simp
  with rt obtain rt' where "rt' \<in> set (distinct_routes rcs)" "rt_name rt' = rt_name rt" by force
  moreover from this have "rt' \<in> snd ` set rcs" using distinct_routes_sub by blast
  ultimately show "rt \<in> set (distinct_routes rcs)" using inj_onD [OF assms _ _ rt] by metis
qed

text \<open>The payload \<open>Data\<close> sends for a route, and the world when its first delivery starts.\<close>

definition data_payload :: "env \<Rightarrow> session \<Rightarrow> world \<Rightarrow> bytes \<Rightarrow> route \<Rightarrow> payload" where
  "data_payload E s w raw route =
     BuildPayload (env_uuid E (n_uuid w)) (env_now E (n_now w)) route
       (Parse (env_read E) (ss_from s) (rcptAddrs s) raw)"

definition logged_world :: "env \<Rightarrow> backend \<Rightarrow> session \<Rightarrow> world \<Rightarrow> bytes \<Rightarrow> world" where
  "logged_world E b s w raw =
     after (LogMessage E (bk_store b) (message_log_of s (env_uuid E (n_uuid w)) (env_now E (n_now w))
         (first_seen [] (map (rt_name \<circ> snd) (ss_rcpts s)))
         (Parse (env_read E) (ss_from s) (rcptAddrs s) raw) raw))
       (after (new_uuid E) (after (time_Now E) w))"

definition data_sync :: "env \<Rightarrow> backend \<Rightarrow> session \<Rightarrow> world \<Rightarrow> bytes
    \<Rightarrow> (session_error + route list) session_op" where
  "data_sync E b s w raw = sync_phase E b (data_payload E s w raw) (distinct_routes (ss_rcpts s)) []"

lemma pl_route_data [simp]: "pl_route (data_payload E s w raw rt) = rt_name rt"
  by (simp add: data_payload_def BuildPayload_def)

text \<open>\<open>Data\<close> on the bytes of a message is the log entry, the sync phase and the enqueue phase.\<close>

lemma Data_parts:
  "result (Data E b (Inr raw)) (s, w) =
     (case result (data_sync E b s w raw) (s, logged_world E b s w raw) of
        Inl e \<Rightarrow> Some e
      | Inr rs \<Rightarrow> result (enqueue_phase E b (data_payload E s w raw) rs)
          (after (data_sync E b s w raw) (s, logged_world E b s w raw)))"
  "after (Data E b (Inr raw)) (s, w) =
     (case result (data_sync E b s w raw) (s, logged_world E b s w raw) of
        Inl e \<Rightarrow> after (data_sync E b s w raw) (s, logged_world E b s w raw)
      | Inr rs \<Rightarrow> after (enqueue_phase E b (data_payload E s w raw) rs)
          (after (data_sync E b s w raw) (s, logged_world E b s w raw)))"
proof -
  have o: "fst (matched_routes ([], Map.empty) rcs) = first_seen [] (map (rt_name \<circ> snd) rcs)" for rcs
    using matched_routes_spec [of Map.empty "[]" rcs] by simp
  note unfolds = Data_def data_sync_def data_payload_def [abs_def] logged_world_def Let_def
    case_prod_beta distinct_routes_def o run_simps
  show "result (Data E b (Inr raw)) (s, w) =
     (case result (data_sync E b s w raw) (s, logged_world E b s w raw) of
        Inl e \<Rightarrow> Some e
      | Inr rs \<Rightarrow> result (enqueue_phase E b (data_payload E s w raw) rs)
          (after (data_sync E b s w raw) (s, logged_world E b s w raw)))"
    by (simp add: unfolds split: sum.splits)
  show "after (Data E b (Inr raw)) (s, w) =
     (case result (data_sync E b s w raw) (s, logged_world E b s w raw) of
        Inl e \<Rightarrow> after (data_sync E b s w raw) (s, logged_world E b s w raw)
      | Inr rs \<Rightarrow> after (enqueue_phase E b (data_payload E s w raw) rs)
          (after (data_sync E b s w raw) (s, logged_world E b s w raw)))"
    by (simp add: unfolds split: sum.splits)
qed

section \<open>World invariants of a session\<close>

text \<open>A property of the world that every call of a session keeps, whatever the session does, if the
  routes it delivers to are allowed.\<close>

definition session_calls_keep :: "env \<Rightarrow> backend \<Rightarrow> route set \<Rightarrow> (world \<Rightarrow> bool) \<Rightarrow> bool" where
  "session_calls_keep E b allowed Q \<longleftrightarrow>
     preserves Q (time_Now E) \<and> preserves Q (new_uuid E)
     \<and> (\<forall>m. preserves Q (LogMessage E (bk_store b) m))
     \<and> (\<forall>st r p u f a e. preserves Q (recordRejection E b st r p u f a e))
     \<and> (\<forall>rt\<in>allowed. \<forall>p. HasWebhook rt \<longrightarrow> pl_route p = rt_name rt \<longrightarrow>
          preserves Q (DeliverSync E (bk_deliverer b) rt p) \<and> preserves Q (EnqueuePayload E p))"

lemma calls_keepD:
  assumes "session_calls_keep E b allowed Q"
  shows "Q w \<Longrightarrow> Q (after (time_Now E) w)" "Q w \<Longrightarrow> Q (after (new_uuid E) w)"
    and "Q w \<Longrightarrow> Q (after (LogMessage E (bk_store b) m) w)"
    and "Q w \<Longrightarrow> Q (after (recordRejection E b st r p u f a e) w)"
  using assms by (simp_all add: session_calls_keep_def preserves_def)

lemma calls_keep_sync:
  assumes "session_calls_keep E b allowed Q" "set rs \<subseteq> allowed" "\<And>rt. pl_route (pf rt) = rt_name rt"
    and "Q (snd sw)"
  shows "Q (snd (after (sync_phase E b pf rs acc) sw))"
  using assms(2,4)
proof (induction rs arbitrary: sw acc)
  case (Cons rt rs)
  have dlv: "HasWebhook rt \<Longrightarrow> Q w \<Longrightarrow> Q (after (DeliverSync E (bk_deliverer b) rt (pf rt)) w)" for w
    using assms(1,3) Cons.prems(1) by (auto simp: session_calls_keep_def preserves_def)
  have rec: "Q w \<Longrightarrow> Q (after (recordRejection E b st r p u f a e) w)" for st r p u f a e w
    using assms(1) by (auto simp: session_calls_keep_def preserves_def)
  from Cons show ?case by (auto simp: reject_def intro!: Cons.IH dlv rec)
qed simp

lemma calls_keep_enqueue:
  assumes "session_calls_keep E b allowed Q" "set rs \<subseteq> allowed" "\<forall>rt\<in>set rs. HasWebhook rt"
    and "\<And>rt. pl_route (pf rt) = rt_name rt" and "Q (snd sw)"
  shows "Q (snd (after (enqueue_phase E b pf rs) sw))"
  using assms(2,3,5)
proof (induction rs arbitrary: sw)
  case (Cons rt rs)
  have enq: "Q w \<Longrightarrow> Q (after (EnqueuePayload E (pf rt)) w)" for w
    using assms(1,4) Cons.prems by (auto simp: session_calls_keep_def preserves_def)
  have rec: "Q w \<Longrightarrow> Q (after (recordRejection E b st r p u f a e) w)" for st r p u f a e w
    using assms(1) by (auto simp: session_calls_keep_def preserves_def)
  from Cons show ?case by (auto simp: reject_def intro!: Cons.IH enq rec)
qed simp

text \<open>The two phases: what is collected, and what an outcome says.\<close>

definition is_sync :: "backend \<Rightarrow> route \<Rightarrow> bool" where
  "is_sync b rt \<longleftrightarrow> EffectiveMode rt (dl_default_mode (cf_delivery (bk_cfg b))) = ModeSync"

lemma sync_phase_skip: "\<not> HasWebhook rt \<Longrightarrow> sync_phase E b pf (rt # rs) acc = sync_phase E b pf rs acc"
  and sync_phase_defer: "HasWebhook rt \<Longrightarrow> \<not> is_sync b rt \<Longrightarrow>
    sync_phase E b pf (rt # rs) acc = sync_phase E b pf rs (acc @ [rt])"
  by (simp_all add: is_sync_def)

lemma sync_phase_delivered:
  assumes "HasWebhook rt" "is_sync b rt"
    and "snd (result (DeliverSync E (bk_deliverer b) rt (pf rt)) (snd sw)) = None"
  defines "sw1 \<equiv> (fst sw, after (DeliverSync E (bk_deliverer b) rt (pf rt)) (snd sw))"
  shows "result (sync_phase E b pf (rt # rs) acc) sw = result (sync_phase E b pf rs acc) sw1"
    and "after (sync_phase E b pf (rt # rs) acc) sw = after (sync_phase E b pf rs acc) sw1"
  using assms by (simp_all add: is_sync_def)

lemma sync_phase_failed:
  assumes "HasWebhook rt" "is_sync b rt"
    and "snd (result (DeliverSync E (bk_deliverer b) rt (pf rt)) (snd sw)) \<noteq> None"
  defines "sw1 \<equiv> (fst sw, after (DeliverSync E (bk_deliverer b) rt (pf rt)) (snd sw))"
    and "e \<equiv> err_downstream E (rt_name rt)
      (fst (result (DeliverSync E (bk_deliverer b) rt (pf rt)) (snd sw)))"
  shows "result (sync_phase E b pf (rt # rs) acc) sw = Inl (SMTPError e)"
    and "after (sync_phase E b pf (rt # rs) acc) sw =
      after (reject E b ''data'' (Join (rcptAddrs (fst sw)) '','') e) sw1"
  using assms by (auto simp: is_sync_def)

text \<open>The cases of one iteration.\<close>

lemma sync_phase_cases:
  obtains (skip) "\<not> HasWebhook rt" | (later) "HasWebhook rt" "\<not> is_sync b rt"
    | (delivered) "HasWebhook rt" "is_sync b rt"
        "snd (result (DeliverSync E (bk_deliverer b) rt (pf rt)) w) = None"
    | (failed) "HasWebhook rt" "is_sync b rt"
        "snd (result (DeliverSync E (bk_deliverer b) rt (pf rt)) w) \<noteq> None"
  by blast

lemma sync_phase_collects:
  "result (sync_phase E b pf rs acc) sw = Inr async \<Longrightarrow>
     async = acc @ filter (\<lambda>rt. HasWebhook rt \<and> \<not> is_sync b rt) rs"
proof (induction rs arbitrary: acc sw)
  case (Cons rt rs)
  show ?case
  proof (rule sync_phase_cases [where rt = rt and b = b and E = E and pf = pf and w = "snd sw"])
    assume "HasWebhook rt" "\<not> is_sync b rt"
    with Cons.IH [of "acc @ [rt]"] Cons.prems show ?thesis
      by (simp add: sync_phase_defer del: sync_phase.simps(2))
  qed (use Cons in \<open>simp_all add: sync_phase_skip sync_phase_delivered sync_phase_failed
      del: sync_phase.simps(2)\<close>)
qed simp

lemma calls_keep_Data:
  assumes "session_calls_keep E b allowed Q" "snd ` set (ss_rcpts s) \<subseteq> allowed" "Q w"
  shows "Q (snd (after (Data E b rd) (s, w)))"
proof (cases rd)
  case (Inr raw)
  let ?pf = "data_payload E s w raw" and ?v = "logged_world E b s w raw"
  let ?sync = "data_sync E b s w raw"
  have rs: "set (distinct_routes (ss_rcpts s)) \<subseteq> allowed" using distinct_routes_sub assms(2) by fast
  have "Q ?v" unfolding logged_world_def by (intro calls_keepD [OF assms(1)] assms(3))
  then have q: "Q (snd (after ?sync (s, ?v)))"
    unfolding data_sync_def by (intro calls_keep_sync [OF assms(1) rs]) simp_all
  have "Q (snd (after (enqueue_phase E b ?pf async) (after ?sync (s, ?v))))"
    if "result ?sync (s, ?v) = Inr async" for async
  proof -
    have "async = filter (\<lambda>rt. HasWebhook rt \<and> \<not> is_sync b rt) (distinct_routes (ss_rcpts s))"
      using sync_phase_collects [OF that [unfolded data_sync_def]] by simp
    then have "set async \<subseteq> allowed" "\<forall>rt\<in>set async. HasWebhook rt" using rs by auto
    from calls_keep_enqueue [OF assms(1) this _ q] show ?thesis by simp
  qed
  with q show ?thesis unfolding Inr Data_parts(2) by (simp split: sum.splits)
qed (simp add: Data_def assms(3))

lemma calls_keep_validate:
  assumes "session_calls_keep E b allowed Q" "Q (snd sw)"
  shows "Q (snd (after (validate E b u pw) sw))"
proof (cases "accepts_password E b u pw")
  case False
  with assms show ?thesis
    by (simp add: validate_refuses session_calls_keep_def preserves_def)
qed (simp add: validate_accepts assms(2))

lemma calls_keep_command:
  assumes "session_calls_keep E b allowed Q" "snd ` set (ss_rcpts (fst sw)) \<subseteq> allowed" "Q (snd sw)"
  shows "Q (snd (after (exec_command E b c) sw))"
proof -
  have rec: "Q w \<Longrightarrow> Q (after (recordRejection E b st r p u f a e) w)" for st r p u f a e w
    using assms(1) by (simp add: session_calls_keep_def preserves_def)
  show ?thesis
  proof (cases c)
    case (CmdLogin as)
    with login_command [where as = as and E = E and b = b and sw = sw] calls_keep_validate [OF assms(1,3)] assms(3)
    show ?thesis by (auto simp del: exec_auth split: option.splits)
  next
    case (CmdRcpt a)
    with assms(3) show ?thesis by (auto simp: Rcpt_def reject_def split: option.splits intro!: rec)
  next
    case (CmdData rd)
    with calls_keep_Data [OF assms, of rd] show ?thesis by simp
  qed (use assms(3) calls_keep_validate [OF assms(1,3)] in
      \<open>auto simp: Mail_def reject_def Reset_def Logout_def intro!: rec\<close>)
qed

section \<open>Who is behind a recipient\<close>

fun presents :: "command \<Rightarrow> (string \<times> string) option" where
  "presents (CmdPlain identity u pw) = Some (u, pw)"
| "presents (CmdLogin answers) = login_presents answers"
| "presents _ = None"

text \<open>The user's password was presented by one of the commands, and accepted.\<close>

definition authenticated :: "env \<Rightarrow> backend \<Rightarrow> command list \<Rightarrow> string \<Rightarrow> bool" where
  "authenticated E b cs u \<longleftrightarrow>
     (\<exists>c\<in>set cs. \<exists>pw. presents c = Some (u, pw) \<and> accepts_password E b u pw)"

definition routes_of_users :: "backend \<Rightarrow> (string \<Rightarrow> bool) \<Rightarrow> route set" where
  "routes_of_users b U = {rt \<in> set (bk_routes b). U (rt_username rt)}"

definition session_ok :: "env \<Rightarrow> backend \<Rightarrow> (string \<Rightarrow> bool) \<Rightarrow> session \<Rightarrow> bool" where
  "session_ok E b U s \<longleftrightarrow> (ss_username s = [] \<or> U (ss_username s))
     \<and> (\<forall>(a, rt)\<in>set (ss_rcpts s). rt \<in> routes_of_users b U
          \<and> route_accepts (env_fold E) rt (rt_username rt) a)"

lemma session_ok_rcpts: "session_ok E b U s \<Longrightarrow> snd ` set (ss_rcpts s) \<subseteq> routes_of_users b U"
  by (auto simp: session_ok_def)

lemma session_ok_validate:
  "accepts_password E b u pw \<longrightarrow> U u \<Longrightarrow> session_ok E b U (fst sw) \<Longrightarrow>
     session_ok E b U (fst (after (validate E b u pw) sw))"
  by (cases "accepts_password E b u pw")
    (simp_all add: validate_accepts validate_refuses session_ok_def)

lemma session_ok_Rcpt:
  assumes "\<forall>rt\<in>set (bk_routes b). rt_username rt \<noteq> []" "session_ok E b U (fst sw)"
  shows "session_ok E b U (fst (after (Rcpt E b a) sw))"
proof (cases "Match (env_fold E) (bk_routes b) (ss_username (fst sw)) a")
  case None
  with assms(2) show ?thesis by (simp add: Rcpt_def)
next
  case (Some rt)
  then have rt: "rt \<in> set (bk_routes b)" "route_accepts (env_fold E) rt (ss_username (fst sw)) a"
    by (auto simp: Match_find dest!: find_Some_in)
  then have u: "rt_username rt = ss_username (fst sw)" by (simp add: route_accepts_def)
  with rt(1) assms have "U (rt_username rt)" by (auto simp: session_ok_def)
  with Some rt u assms(2) show ?thesis by (auto simp: Rcpt_def session_ok_def routes_of_users_def)
qed

lemma session_ok_command:
  assumes "\<forall>rt\<in>set (bk_routes b). rt_username rt \<noteq> []" "session_ok E b U (fst sw)"
    and "\<And>u pw. presents c = Some (u, pw) \<Longrightarrow> accepts_password E b u pw \<Longrightarrow> U u"
  shows "session_ok E b U (fst (after (exec_command E b c) sw))"
proof (cases c)
  case (CmdPlain identity u pw)
  with session_ok_validate [OF _ assms(2)] assms(3) show ?thesis by simp
next
  case (CmdLogin as)
  show ?thesis
  proof (cases "login_presents as")
    case None
    with CmdLogin login_command [where as = as and E = E and b = b and sw = sw] assms(2)
    show ?thesis by (simp del: exec_auth)
  next
    case (Some up)
    with CmdLogin login_command [where as = as and E = E and b = b and sw = sw]
      session_ok_validate [OF _ assms(2), of "fst up" "snd up"] assms(3)
    show ?thesis by (cases up) (simp del: exec_auth)
  qed
next
  case (CmdRcpt a)
  with session_ok_Rcpt [OF assms(1,2)] show ?thesis by simp
qed (use assms(2) in \<open>auto simp: Mail_def Reset_def Logout_def session_ok_def\<close>)

text \<open>A command sequence keeps what its calls keep.\<close>

lemma run_commands_keep:
  assumes "\<forall>rt\<in>set (bk_routes b). rt_username rt \<noteq> []"
    and "session_calls_keep E b (routes_of_users b U) Q"
    and "\<And>u. authenticated E b cs u \<Longrightarrow> U u" "session_ok E b U (fst sw)" "Q (snd sw)"
  shows "session_ok E b U (fst (after (run_commands E b cs) sw))
    \<and> Q (snd (after (run_commands E b cs) sw))"
  using assms(3-5)
proof (induction cs arbitrary: sw)
  case (Cons c cs)
  have auth: "U u" if "presents c = Some (u, pw)" "accepts_password E b u pw" for u pw
    using that Cons.prems(1) by (auto simp: authenticated_def)
  have "session_ok E b U (fst (after (exec_command E b c) sw))"
    using session_ok_command [OF assms(1) Cons.prems(2)] auth by blast
  moreover have "Q (snd (after (exec_command E b c) sw))"
    by (rule calls_keep_command [OF assms(2) session_ok_rcpts [OF Cons.prems(2)] Cons.prems(3)])
  moreover have "\<And>u. authenticated E b cs u \<Longrightarrow> U u" using Cons.prems(1) by (auto simp: authenticated_def)
  ultimately show ?case using Cons.IH by simp
qed simp

section \<open>What a session adds to the world\<close>

lemma DeliverSync_sends:
  "\<exists>new. http_sent (after (DeliverSync E d rt p) w) = http_sent w @ new
     \<and> (\<forall>x\<in>set new. \<exists>body. fst x = webhook_request rt body)"
proof (cases "Marshal E p")
  case (Inr body)
  have "http_sent (after (DeliverSync E d rt p) w) = http_sent (after (attempt E rt body) w)"
    by (simp add: DeliverSync_def Inr keepsD)
  moreover have "\<exists>new. http_sent (after (attempt E rt body) w) = http_sent w @ new
     \<and> (\<forall>x\<in>set new. fst x = webhook_request rt body)"
    by (auto simp: attempt_def run_simps split: option.splits)
  ultimately show ?thesis by auto
qed (simp add: DeliverSync_def)

lemma EnqueuePayload_adds:
  "\<exists>new. queue (db_of (after (EnqueuePayload E p) w)) = queue (db_of w) @ new
     \<and> (\<forall>r\<in>set new. qu_route r = pl_route p)"
  by (auto simp: EnqueuePayload_def Enqueue_def after_db_exec run_simps sql_insert_queue_def
      split: sum.splits)

definition traffic_ok :: "route set \<Rightarrow> world \<Rightarrow> world \<Rightarrow> bool" where
  "traffic_ok R w0 w \<longleftrightarrow>
     (\<exists>new. http_sent w = http_sent w0 @ new
        \<and> (\<forall>x\<in>set new. \<exists>rt\<in>R. HasWebhook rt \<and> (\<exists>body. fst x = webhook_request rt body)))
     \<and> (\<exists>new. queue (db_of w) = queue (db_of w0) @ new
        \<and> (\<forall>r\<in>set new. \<exists>rt\<in>R. HasWebhook rt \<and> qu_route r = rt_name rt))"

lemma traffic_frame:
  "keeps http_sent m \<Longrightarrow> keeps queue_part m \<Longrightarrow> preserves (traffic_ok R w0) m"
  by (simp add: preserves_def keeps_def traffic_ok_def queue_part_def)

lemma traffic_calls: "session_calls_keep E b R (traffic_ok R w0)"
proof -
  have base: "preserves (traffic_ok R w0) (time_Now E)" "preserves (traffic_ok R w0) (new_uuid E)"
    "preserves (traffic_ok R w0) (LogMessage E (bk_store b) m)"
    "preserves (traffic_ok R w0) (recordRejection E b st r p u f a e)" for m st r p u f a e
    by (auto intro!: traffic_frame) (simp_all add: keeps_def run_simps queue_part_def)
  have "preserves (traffic_ok R w0) (DeliverSync E (bk_deliverer b) rt p)"
    if "rt \<in> R" "HasWebhook rt" for rt p
  proof (rule preservesI)
    fix w assume "traffic_ok R w0 w"
    moreover obtain new where
      "http_sent (after (DeliverSync E (bk_deliverer b) rt p) w) = http_sent w @ new"
      "\<forall>x\<in>set new. \<exists>body. fst x = webhook_request rt body" using DeliverSync_sends by blast
    moreover have "queue (db_of (after (DeliverSync E (bk_deliverer b) rt p) w)) = queue (db_of w)"
      using keepsD [OF keeps_DeliverSync(1)] by (simp add: queue_part_def)
    ultimately show "traffic_ok R w0 (after (DeliverSync E (bk_deliverer b) rt p) w)"
      using that unfolding traffic_ok_def by (fastforce simp: ball_Un)
  qed
  moreover have "preserves (traffic_ok R w0) (EnqueuePayload E p)"
    if "rt \<in> R" "HasWebhook rt" "pl_route p = rt_name rt" for rt p
  proof (rule preservesI)
    fix w assume "traffic_ok R w0 w"
    moreover obtain new where "queue (db_of (after (EnqueuePayload E p) w)) = queue (db_of w) @ new"
      "\<forall>r\<in>set new. qu_route r = pl_route p" using EnqueuePayload_adds by blast
    moreover have "http_sent (after (EnqueuePayload E p) w) = http_sent w" by (simp add: keepsD)
    ultimately show "traffic_ok R w0 (after (EnqueuePayload E p) w)"
      using that unfolding traffic_ok_def by (fastforce simp: ball_Un)
  qed
  ultimately show ?thesis unfolding session_calls_keep_def using base by blast
qed

text \<open>A session is a neighbour the delivery worker can live with.\<close>

lemma outside_refl [simp]: "outside_step w w"
  by (simp add: outside_step_def)

lemma outside_trans: "outside_step u v \<Longrightarrow> outside_step v w \<Longrightarrow> outside_step u w"
  by (auto simp: outside_step_def)

lemma outside_frame:
  assumes "keeps queue_part m" "preserves_db m" "set (http_sent w) \<subseteq> set (http_sent (after m w))"
  shows "outside_step w (after m w)"
  using assms queue_map_keeps [OF assms(1)] preservesD [OF assms(2)] by (simp add: outside_step_def)

lemma outside_EnqueuePayload: "outside_step w (after (EnqueuePayload E p) w)"
proof -
  have "queue_map (db_of (after (EnqueuePayload E p) w)) i = Some x"
    if "db_ok (db_of w)" "queue_map (db_of w) i = Some x" for i x
    using that jq.put_keeps
    by (auto simp: EnqueuePayload_def Enqueue_def after_db_exec run_simps split: sum.splits)
  moreover have "db_ok (db_of (after (EnqueuePayload E p) w))" if "db_ok (db_of w)"
    using that preservesD [OF preserves_db_delivery(4)] by blast
  ultimately show ?thesis by (simp add: outside_step_def keepsD)
qed

lemma outside_calls: "session_calls_keep E b UNIV (outside_step w0)"
proof -
  have mono: "set (http_sent w) \<subseteq> set (http_sent (after (DeliverSync E d rt p) w))" for w d rt p
    using DeliverSync_sends [of E d rt p w] by auto
  have "outside_step w (after (time_Now E) w)" "outside_step w (after (new_uuid E) w)"
    "outside_step w (after (LogMessage E (bk_store b) m) w)"
    "outside_step w (after (recordRejection E b st r p u f a e) w)" for w m st r p u f a e
    by (auto intro!: outside_frame simp: keepsD) (simp_all add: keeps_def run_simps queue_part_def)
  moreover have "outside_step w (after (DeliverSync E (bk_deliverer b) rt pl) w)" for w rt pl
    by (rule outside_frame) (simp_all add: mono)
  ultimately show ?thesis
    using outside_EnqueuePayload
    by (auto simp: session_calls_keep_def preserves_def intro: outside_trans)
qed

section \<open>Properties\<close>

text \<open>C2: no open relay. Whatever commands a client sends, in whatever order, with whatever
  environment: every recipient accepted is for a configured route that matches it and whose owner's
  password the client presented and had accepted in this session; and every webhook request sent and
  every job queued on the way is for such a route.\<close>

theorem no_open_relay:
  fixes E :: env and b :: backend and cs :: "command list" and w :: world and remote :: string
    and port :: int
  assumes "\<forall>rt\<in>set (bk_routes b). rt_username rt \<noteq> []"
  defines "sw \<equiv> after (run_commands E b cs) (new_session remote port, w)"
  defines "owned \<equiv> (\<lambda>rt. rt \<in> set (bk_routes b) \<and> authenticated E b cs (rt_username rt))"
  shows "(\<forall>(a, rt)\<in>set (ss_rcpts (fst sw)). owned rt
        \<and> route_accepts (env_fold E) rt (rt_username rt) a)
    \<and> (\<exists>new. http_sent (snd sw) = http_sent w @ new
        \<and> (\<forall>(req, out)\<in>set new. \<exists>rt body. owned rt \<and> HasWebhook rt \<and> req = webhook_request rt body))
    \<and> (\<exists>new. queue (db_of (snd sw)) = queue (db_of w) @ new
        \<and> (\<forall>r\<in>set new. \<exists>rt. owned rt \<and> HasWebhook rt \<and> qu_route r = rt_name rt))"
proof -
  let ?U = "authenticated E b cs"
  have start: "session_ok E b ?U (fst (new_session remote port, w))"
    "traffic_ok (routes_of_users b ?U) w (snd (new_session remote port, w))"
    by (simp_all add: session_ok_def new_session_def traffic_ok_def)
  have "session_ok E b ?U (fst sw) \<and> traffic_ok (routes_of_users b ?U) w (snd sw)"
    unfolding sw_def by (rule run_commands_keep [OF assms(1) traffic_calls _ start])
  then have s: "session_ok E b ?U (fst sw)" and t: "traffic_ok (routes_of_users b ?U) w (snd sw)"
    by blast+
  have owned: "rt \<in> routes_of_users b ?U \<longleftrightarrow> owned rt" for rt
    by (simp add: routes_of_users_def owned_def)
  from s have "\<forall>(a, rt)\<in>set (ss_rcpts (fst sw)). owned rt
      \<and> route_accepts (env_fold E) rt (rt_username rt) a"
    by (simp add: session_ok_def owned)
  moreover from t have "\<exists>new. http_sent (snd sw) = http_sent w @ new
      \<and> (\<forall>(req, out)\<in>set new. \<exists>rt body. owned rt \<and> HasWebhook rt \<and> req = webhook_request rt body)"
    unfolding traffic_ok_def owned [symmetric] by fastforce
  moreover from t have "\<exists>new. queue (db_of (snd sw)) = queue (db_of w) @ new
      \<and> (\<forall>r\<in>set new. \<exists>rt. owned rt \<and> HasWebhook rt \<and> qu_route r = rt_name rt)"
    unfolding traffic_ok_def owned [symmetric] by blast
  ultimately show ?thesis by blast
qed

text \<open>A backend with one route, and a client that logs in and names a recipient.\<close>

definition example_backend :: "route \<Rightarrow> bool \<Rightarrow> backend" where
  "example_backend rt keep =
     \<lparr>bk_cfg = files_config, bk_routes = [rt], bk_deliverer = example_deliverer 3,
      bk_store = \<lparr>st_logContent = True, st_logRejections = keep\<rparr>,
      bk_users = users_of [rt], bk_allowNets = []\<rparr>"

definition login_and_name :: "command list" where
  "login_and_name = [CmdLogin [''alice'', ''s3cret''], CmdRcpt ''x@h.example'']"

text \<open>What matters of it.\<close>

definition serves_alice :: "backend \<Rightarrow> bool" where
  "serves_alice b \<longleftrightarrow> bk_users b = users_of [signed_route] \<and> bk_routes b = [signed_route]
     \<and> dl_default_mode (cf_delivery (bk_cfg b)) = ModeAsync \<and> bk_allowNets b = []"

lemma example_serves_alice [simp]: "serves_alice (example_backend signed_route r)"
  by (simp add: serves_alice_def example_backend_def files_config_def mode_defs)

lemma alice_accepted: "serves_alice b \<Longrightarrow> accepts_password E b ''alice'' ''s3cret''"
  by (simp add: serves_alice_def accepts_password_def users_of_def signed_route_def
      credential_of_def checkPassword_def ConstantTimeCompare_def)

lemma alice_match: "Match id [signed_route] ''alice'' ''x@h.example'' = Some signed_route"
proof -
  have "EqualFold id ''h.example'' ''h.example''" by (rule ef.eqf_refl)
  then show ?thesis
    using split_addr_at [of "''h.example''" "''x''"]
    by (simp add: Match_find route_accepts_def signed_route_def)
qed

lemma example_run:
  assumes "serves_alice b"
  shows "after (run_commands (env_answering out) b login_and_name) (new_session ''10.0.0.1:5'' 587, w)
    = ((new_session ''10.0.0.1:5'' 587)\<lparr>ss_username := ''alice'',
         ss_rcpts := [(''x@h.example'', signed_route)]\<rparr>, w)"
proof -
  let ?E = "env_answering out"
  let ?sw = "(new_session ''10.0.0.1:5'' 587, w)"
  let ?sw1 = "((fst ?sw)\<lparr>ss_username := ''alice''\<rparr>, w)"
  have sw1: "after (exec_command ?E b (CmdLogin [''alice'', ''s3cret''])) ?sw = ?sw1"
    using login_command [where as = "[''alice'', ''s3cret'']" and E = ?E and b = b and sw = ?sw]
      validate_accepts [OF alice_accepted [OF assms]]
    by (simp del: exec_auth)
  have "env_fold ?E = id" by (simp add: env_answering_def)
  with alice_match have "after (exec_command ?E b (CmdRcpt ''x@h.example'')) ?sw1
      = ((new_session ''10.0.0.1:5'' 587)\<lparr>ss_username := ''alice'',
           ss_rcpts := [(''x@h.example'', signed_route)]\<rparr>, w)"
    using assms by (simp add: Rcpt_def serves_alice_def) (simp add: new_session_def)
  with sw1 show ?thesis by (simp add: login_and_name_def del: exec_auth exec_command.simps)
qed

theorem no_open_relay_witness:
  "authenticated (env_answering (Responded 200)) (example_backend signed_route True) login_and_name ''alice''"
proof -
  have "\<forall>rt\<in>set (bk_routes (example_backend signed_route True)). rt_username rt \<noteq> []"
    by (simp add: example_backend_def signed_route_def)
  from no_open_relay [OF this, of "env_answering (Responded 200)" login_and_name
      "''10.0.0.1:5''" 587 initial_world]
  show ?thesis by (simp add: example_run) (simp add: signed_route_def)
qed

end
