(* ===== verification/Submission.thy ===== *)
theory Submission
  imports Session
begin

text \<open>
  What \<open>Data\<close> leaves behind: an accepted message is with every webhook it was routed to or in the
  queue for it, and a refused request is in the rejection log.
\<close>

section \<open>What an accepted message leaves behind\<close>

text \<open>The route's webhook took the payload; the payload is queued as a fresh job.\<close>

definition posted :: "env \<Rightarrow> route \<Rightarrow> payload \<Rightarrow> world \<Rightarrow> bool" where
  "posted E rt p w \<longleftrightarrow> (\<exists>body out. Marshal E p = Inr body \<and> success_outcome out
     \<and> (webhook_request rt body, out) \<in> set (http_sent w))"

definition enqueued :: "env \<Rightarrow> payload \<Rightarrow> world \<Rightarrow> bool" where
  "enqueued E p w \<longleftrightarrow> (\<exists>body i t. Marshal E p = Inr body \<and> queue_map (db_of w) i =
     Some (\<lparr>jb_ID = i, jb_MessageID = pl_message_id p, jb_Route = pl_route p, jb_Payload = body,
            jb_Attempts = 0\<rparr>, t))"

lemma posted_stable: "posted E rt p w \<Longrightarrow> outside_step w w' \<Longrightarrow> posted E rt p w'"
  by (auto simp: posted_def outside_step_def)

lemma enqueued_stable: "enqueued E p w \<Longrightarrow> db_ok (db_of w) \<Longrightarrow> outside_step w w' \<Longrightarrow> enqueued E p w'"
  unfolding enqueued_def outside_step_def by blast

lemma outside_ok: "db_ok (db_of w) \<Longrightarrow> outside_step w w' \<Longrightarrow> db_ok (db_of w')"
  by (simp add: outside_step_def)

lemma DeliverSync_posted:
  assumes "snd (result (DeliverSync E d rt p) w) = None"
  shows "posted E rt p (after (DeliverSync E d rt p) w)"
proof (cases "Marshal E p")
  case (Inr body)
  with assms have "snd (result (attempt E rt body) w) = None" by (simp add: DeliverSync_def)
  from attempt_success_sent [OF this] Inr show ?thesis
    by (auto simp: posted_def DeliverSync_def keepsD)
qed (use assms in \<open>simp add: DeliverSync_def\<close>)

lemma EnqueuePayload_enqueued:
  assumes "result (EnqueuePayload E p) w = None" "db_ok (db_of w)"
  shows "enqueued E p (after (EnqueuePayload E p) w)"
proof (cases "Marshal E p")
  case (Inr body)
  let ?t = "UnixMilli (env_now E (n_now w))"
  from assms(1) Inr have "next_stmt_ok E (w\<lparr>n_now := Suc (n_now w)\<rparr>)"
    by (simp add: EnqueuePayload_def Enqueue_def run_simps wrap_error_None db_exec_Inl)
  then have "db_of (after (EnqueuePayload E p) w)
      = snd (sql_insert_queue (pl_message_id p) (pl_route p) body ?t (db_of w))"
    by (simp add: EnqueuePayload_def Enqueue_def Inr run_simps after_db_exec)
  with jq.jobs_put [OF assms(2), of "pl_message_id p" "pl_route p" body ?t] Inr show ?thesis
    by (auto simp: enqueued_def)
qed (use assms in \<open>simp add: EnqueuePayload_def\<close>)

lemma outside_sync_phase:
  assumes "\<And>rt. pl_route (pf rt) = rt_name rt"
  shows "outside_step (snd sw) (snd (after (sync_phase E b pf rs acc) sw))"
  by (rule calls_keep_sync [OF outside_calls _ assms]) simp_all

lemma sync_phase_posts:
  assumes "result (sync_phase E b pf rs acc) sw = Inr async" "\<And>rt. pl_route (pf rt) = rt_name rt"
  shows "\<forall>rt\<in>set rs. HasWebhook rt \<and> is_sync b rt \<longrightarrow>
    posted E rt (pf rt) (snd (after (sync_phase E b pf rs acc) sw))"
  using assms(1)
proof (induction rs arbitrary: acc sw)
  case (Cons rt rs)
  show ?case
  proof (rule sync_phase_cases [where rt = rt and b = b and E = E and pf = pf and w = "snd sw"])
    assume d: "HasWebhook rt" "is_sync b rt"
      "snd (result (DeliverSync E (bk_deliverer b) rt (pf rt)) (snd sw)) = None"
    let ?sw1 = "(fst sw, after (DeliverSync E (bk_deliverer b) rt (pf rt)) (snd sw))"
    note step = sync_phase_delivered [where E = E and pf = pf, OF d]
    have "posted E rt (pf rt) (snd (after (sync_phase E b pf rs acc) ?sw1))"
      using posted_stable [OF DeliverSync_posted [OF d(3)]] outside_sync_phase [OF assms(2), of ?sw1]
      by simp
    with Cons.IH [of acc ?sw1] Cons.prems show ?thesis by (simp add: step del: sync_phase.simps(2))
  qed (use Cons in \<open>simp_all add: sync_phase_skip sync_phase_defer sync_phase_failed
      del: sync_phase.simps(2)\<close>)
qed simp

lemma enqueue_phase_enqueues:
  assumes "result (enqueue_phase E b pf rs) sw = None" "db_ok (db_of (snd sw))"
    and "\<And>rt. pl_route (pf rt) = rt_name rt" "\<forall>rt\<in>set rs. HasWebhook rt"
  shows "\<forall>rt\<in>set rs. enqueued E (pf rt) (snd (after (enqueue_phase E b pf rs) sw))"
  using assms(1,2,4)
proof (induction rs arbitrary: sw)
  case (Cons rt rs)
  let ?m = "EnqueuePayload E (pf rt)"
  let ?sw1 = "(fst sw, after ?m (snd sw))"
  from Cons.prems(1) have ok: "result ?m (snd sw) = None" by (auto split: if_splits)
  then have step: "after (enqueue_phase E b pf (rt # rs)) sw = after (enqueue_phase E b pf rs) ?sw1"
    "result (enqueue_phase E b pf (rt # rs)) sw = result (enqueue_phase E b pf rs) ?sw1" by simp_all
  have ok1: "db_ok (db_of (snd ?sw1))"
    using outside_ok [OF Cons.prems(2) outside_EnqueuePayload] by simp
  have "outside_step (snd ?sw1) (snd (after (enqueue_phase E b pf rs) ?sw1))"
    using Cons.prems(3) by (intro calls_keep_enqueue [OF outside_calls _ _ assms(3)]) simp_all
  with EnqueuePayload_enqueued [OF ok Cons.prems(2)] ok1
  have "enqueued E (pf rt) (snd (after (enqueue_phase E b pf rs) ?sw1))"
    by (auto intro: enqueued_stable)
  with Cons.IH [of ?sw1] Cons.prems ok1 step show ?case by simp
qed simp

section \<open>Refusals\<close>

text \<open>One more row in the rejection log, for this session, stage and reply.\<close>

definition rejection_added :: "session \<Rightarrow> string \<Rightarrow> smtp_error \<Rightarrow> world \<Rightarrow> world \<Rightarrow> bool" where
  "rejection_added s stage e w w' \<longleftrightarrow> (\<exists>r. rejections (db_of w') = rejections (db_of w) @ [r]
     \<and> rj_stage r = stage \<and> rj_code r = se_Code e \<and> rj_reason r = se_Message e
     \<and> rj_remote_addr r = ss_remote s \<and> rj_port r = Some (ss_localPort s))"

definition rejections_logged :: "env \<Rightarrow> backend \<Rightarrow> bool" where
  "rejections_logged E b \<longleftrightarrow> db_reliable E \<and> st_logRejections (bk_store b)"

lemma recordRejection_row:
  assumes "rejections_logged E b"
  shows "\<exists>r. rejections (db_of (after (recordRejection E b st remote port u f a e) w))
        = rejections (db_of w) @ [r]
     \<and> rj_stage r = st \<and> rj_code r = se_Code e \<and> rj_reason r = se_Message e
     \<and> rj_remote_addr r = remote \<and> rj_port r = Some port \<and> rj_username r = u \<and> rj_from r = f
     \<and> rj_rcpt r = a"
  using assms
  by (auto simp: rejections_logged_def recordRejection_def LogRejection_def after_db_exec run_simps
      sql_insert_rejection_def rejection_row_of_def)

lemma reject_records:
  "rejections_logged E b \<Longrightarrow>
     rejection_added (fst sw) st e (snd sw) (snd (after (reject E b st a e) sw))"
  using recordRejection_row [of E b st "ss_remote (fst sw)" "ss_localPort (fst sw)"
      "ss_username (fst sw)" "ss_from (fst sw)" a e "snd sw"]
  by (auto simp: reject_def rejection_added_def)

lemma validate_records:
  "rejections_logged E b \<Longrightarrow> \<not> accepts_password E b u pw \<Longrightarrow>
     rejection_added (fst sw) ''auth'' errAuthFailed (snd sw) (snd (after (validate E b u pw) sw))"
  using recordRejection_row [of E b "''auth''" "ss_remote (fst sw)" "ss_localPort (fst sw)" u "[]" "[]"
      errAuthFailed "snd sw"]
  by (auto simp: validate_refuses rejection_added_def)

lemma rejections_kept: "keeps rejection_part m \<Longrightarrow> rejections (db_of (after m w)) = rejections (db_of w)"
  by (drule keepsD [where s = w]) (simp add: rejection_part_def)

lemma rejection_added_later:
  "rejection_added s st e w' w'' \<Longrightarrow> rejections (db_of w') = rejections (db_of w) \<Longrightarrow>
     rejection_added s st e w w''"
  by (simp add: rejection_added_def)

text \<open>A delivery of \<open>p\<close> between two worlds failed, with the status \<open>code\<close>: the payload has no JSON, or the
  request could not be made, or it was sent, as the last one, and not answered by a 2xx status.\<close>

fun outcome_code :: "http_outcome \<Rightarrow> int" where
  "outcome_code (Responded code) = code"
| "outcome_code (TransportError err) = 0"

definition sync_failed :: "env \<Rightarrow> route \<Rightarrow> payload \<Rightarrow> int \<Rightarrow> world \<Rightarrow> world \<Rightarrow> bool" where
  "sync_failed E rt p code w w' \<longleftrightarrow>
     (case Marshal E p of
        Inl err \<Rightarrow> code = 0
      | Inr body \<Rightarrow>
          env_request_error E (wh_method (rt_webhook rt)) (wh_url (rt_webhook rt)) \<noteq> None \<and> code = 0
          \<or> (\<exists>before out. http_sent w' = http_sent w @ before @ [(webhook_request rt body, out)]
               \<and> \<not> success_outcome out \<and> code = outcome_code out))"

lemma DeliverSync_failed:
  "snd (result (DeliverSync E d rt p) w) \<noteq> None \<Longrightarrow>
     sync_failed E rt p (fst (result (DeliverSync E d rt p) w)) w (after (DeliverSync E d rt p) w)"
  by (auto simp: sync_failed_def DeliverSync_def attempt_def run_simps keepsD
      split: sum.splits option.splits http_outcome.splits if_splits)

lemma sync_failed_earlier:
  "sync_failed E rt p code v w' \<Longrightarrow> http_sent v = http_sent w @ new \<Longrightarrow> sync_failed E rt p code w w'"
  by (auto simp: sync_failed_def split: sum.splits)

lemma sync_failed_later:
  "sync_failed E rt p code w v \<Longrightarrow> http_sent w' = http_sent v \<Longrightarrow> sync_failed E rt p code w w'"
  by (simp add: sync_failed_def split: sum.splits)

text \<open>The queueing of \<open>p\<close> failed: it has no JSON, or the last statement before the rejection's own did.\<close>

definition queue_failed :: "env \<Rightarrow> backend \<Rightarrow> payload \<Rightarrow> world \<Rightarrow> bool" where
  "queue_failed E b p w' \<longleftrightarrow> (\<exists>err. Marshal E p = Inl err)
     \<or> (\<exists>n. env_db_error E n \<noteq> None
          \<and> n_stmt w' = Suc n + (if st_logRejections (bk_store b) then 1 else 0))"

lemma reject_stmts:
  "n_stmt (snd (after (reject E b st a e) sw)) =
     n_stmt (snd sw) + (if st_logRejections (bk_store b) then 1 else 0)"
  by (simp add: reject_def recordRejection_def LogRejection_def run_simps db_exec_def Let_def
      case_prod_beta split: option.split)

lemma EnqueuePayload_failed:
  "result (EnqueuePayload E p) w \<noteq> None \<Longrightarrow>
     db_of (after (EnqueuePayload E p) w) = db_of w
     \<and> ((\<exists>err. Marshal E p = Inl err)
        \<or> env_db_error E (n_stmt w) \<noteq> None \<and> n_stmt (after (EnqueuePayload E p) w) = Suc (n_stmt w))"
  by (auto simp: EnqueuePayload_def Enqueue_def run_simps db_exec_def Let_def wrap_error_def
      case_prod_beta split: sum.splits option.splits)

lemma EnqueuePayload_row:
  "result (EnqueuePayload E p) w = None \<Longrightarrow>
     \<exists>r. queue (db_of (after (EnqueuePayload E p) w)) = queue (db_of w) @ [r] \<and> qu_route r = pl_route p"
  by (auto simp: EnqueuePayload_def Enqueue_def run_simps db_exec_def Let_def wrap_error_def
      sql_insert_queue_def case_prod_beta split: sum.splits option.splits)

lemma enqueue_phase_fails:
  assumes "result (enqueue_phase E b pf rs) sw \<noteq> None" "\<And>rt. pl_route (pf rt) = rt_name rt"
  shows "\<exists>before rt rest new. rs = before @ rt # rest
     \<and> queue_failed E b (pf rt) (snd (after (enqueue_phase E b pf rs) sw))
     \<and> queue (db_of (snd (after (enqueue_phase E b pf rs) sw))) = queue (db_of (snd sw)) @ new
     \<and> map qu_route new = map rt_name before"
  using assms(1)
proof (induction rs arbitrary: sw)
  case (Cons rt rs)
  let ?m = "EnqueuePayload E (pf rt)"
  let ?sw1 = "(fst sw, after ?m (snd sw))"
  show ?case
  proof (cases "result ?m (snd sw) = None")
    case True
    then have step: "after (enqueue_phase E b pf (rt # rs)) sw = after (enqueue_phase E b pf rs) ?sw1"
      "result (enqueue_phase E b pf rs) ?sw1 \<noteq> None" using Cons.prems by (simp_all split: if_splits)
    from Cons.IH [OF step(2)] obtain before rt' rest new where IH: "rs = before @ rt' # rest"
      "queue_failed E b (pf rt') (snd (after (enqueue_phase E b pf rs) ?sw1))"
      "queue (db_of (snd (after (enqueue_phase E b pf rs) ?sw1))) = queue (db_of (snd ?sw1)) @ new"
      "map qu_route new = map rt_name before" by blast
    from EnqueuePayload_row [OF True] obtain r where
      "queue (db_of (after ?m (snd sw))) = queue (db_of (snd sw)) @ [r]" "qu_route r = rt_name rt"
      by (auto simp: assms(2))
    with IH show ?thesis unfolding step(1)
      by (intro exI [of _ "rt # before"] exI [of _ rt'] exI [of _ rest] exI [of _ "r # new"]) simp
  next
    case False
    let ?rej = "reject E b ''data'' (Join (rcptAddrs (fst sw)) '','') err_queuing"
    from False have step: "after (enqueue_phase E b pf (rt # rs)) sw = after ?rej ?sw1" by auto
    have "queue (db_of (snd (after ?rej ?sw1))) = queue (db_of (after ?m (snd sw)))"
      by (simp add: reject_def recordRejection_def LogRejection_def run_simps db_exec_def Let_def
          sql_insert_rejection_def case_prod_beta split: option.split)
    moreover have "queue_failed E b (pf rt) (snd (after ?rej ?sw1))"
      using EnqueuePayload_failed [OF False] reject_stmts [of E b "''data''" _ err_queuing ?sw1]
      by (auto simp: queue_failed_def)
    ultimately show ?thesis
      unfolding step using EnqueuePayload_failed [OF False]
      by (intro exI [of _ "[]"] exI [of _ rt] exI [of _ rs]) simp
  qed
qed simp

lemma sync_phase_refuses:
  assumes "result (sync_phase E b pf rs acc) sw = Inl x"
  shows "\<exists>rt\<in>set rs. \<exists>code. HasWebhook rt \<and> is_sync b rt
     \<and> x = SMTPError (err_downstream E (rt_name rt) code)
     \<and> sync_failed E rt (pf rt) code (snd sw) (snd (after (sync_phase E b pf rs acc) sw))
     \<and> (rejections_logged E b \<longrightarrow> rejection_added (fst sw) ''data''
          (err_downstream E (rt_name rt) code) (snd sw) (snd (after (sync_phase E b pf rs acc) sw)))"
  using assms
proof (induction rs arbitrary: acc sw)
  case (Cons rt rs)
  let ?m = "DeliverSync E (bk_deliverer b) rt (pf rt)"
  let ?sw1 = "(fst sw, after ?m (snd sw))"
  have same: "rejections (db_of (snd ?sw1)) = rejections (db_of (snd sw))"
    by (simp add: rejections_kept)
  show ?case
  proof (rule sync_phase_cases [where rt = rt and b = b and E = E and pf = pf and w = "snd sw"])
    assume "HasWebhook rt" "is_sync b rt" "snd (result ?m (snd sw)) = None"
    note step = sync_phase_delivered [where E = E and pf = pf, OF this]
    from DeliverSync_sends [of E "bk_deliverer b" rt "pf rt" "snd sw"] obtain new where "http_sent (snd ?sw1) = http_sent (snd sw) @ new" by auto
    from sync_failed_earlier [OF _ this] Cons.IH [of acc ?sw1] Cons.prems rejection_added_later [OF _ same]
    show ?thesis by (simp add: step del: sync_phase.simps(2)) blast
  next
    assume f: "HasWebhook rt" "is_sync b rt" "snd (result ?m (snd sw)) \<noteq> None"
    note step = sync_phase_failed [where E = E and pf = pf, OF f]
    let ?e = "err_downstream E (rt_name rt) (fst (result ?m (snd sw)))"
    have "rejections_logged E b \<Longrightarrow> rejection_added (fst sw) ''data'' ?e (snd sw)
        (snd (after (sync_phase E b pf (rt # rs) acc) sw))"
      unfolding step using rejection_added_later [OF reject_records [of E b ?sw1] same] by simp
    moreover have "sync_failed E rt (pf rt) (fst (result ?m (snd sw))) (snd sw)
        (snd (after (sync_phase E b pf (rt # rs) acc) sw))"
      unfolding step using DeliverSync_failed [OF f(3)]
      by (rule sync_failed_later) (simp add: reject_def keepsD)
    moreover have "x = SMTPError ?e" using Cons.prems unfolding step by simp
    ultimately show ?thesis using f(1,2) by auto
  next
    assume "\<not> HasWebhook rt"
    with Cons.IH [of acc sw] Cons.prems show ?thesis
      by (simp add: sync_phase_skip del: sync_phase.simps(2))
  next
    assume "HasWebhook rt" "\<not> is_sync b rt"
    with Cons.IH [of "acc @ [rt]" sw] Cons.prems show ?thesis
      by (simp add: sync_phase_defer del: sync_phase.simps(2))
  qed
qed simp

lemma sync_phase_queue: "queue_part (snd (after (sync_phase E b pf rs acc) sw)) = queue_part (snd sw)"
  by (induction rs arbitrary: acc sw) (auto simp: reject_def keepsD)

lemma sync_phase_quiet:
  "result (sync_phase E b pf rs acc) sw = Inr async \<Longrightarrow>
     rejections (db_of (snd (after (sync_phase E b pf rs acc) sw))) = rejections (db_of (snd sw))"
proof (induction rs arbitrary: acc sw)
  case (Cons rt rs)
  show ?case
    by (rule sync_phase_cases [where rt = rt and b = b and E = E and pf = pf and w = "snd sw"])
      (use Cons in \<open>simp_all add: sync_phase_skip sync_phase_defer sync_phase_delivered
        sync_phase_failed rejections_kept del: sync_phase.simps(2)\<close>)
qed simp

lemma enqueue_phase_outcome:
  "(result (enqueue_phase E b pf rs) sw = None \<longrightarrow>
      rejections (db_of (snd (after (enqueue_phase E b pf rs) sw))) = rejections (db_of (snd sw)))
   \<and> (result (enqueue_phase E b pf rs) sw \<noteq> None \<longrightarrow>
      result (enqueue_phase E b pf rs) sw = Some (SMTPError err_queuing) \<and> rs \<noteq> []
      \<and> (rejections_logged E b \<longrightarrow> rejection_added (fst sw) ''data'' err_queuing (snd sw)
           (snd (after (enqueue_phase E b pf rs) sw))))"
proof (induction rs arbitrary: sw)
  case (Cons rt rs)
  let ?m = "EnqueuePayload E (pf rt)"
  let ?sw1 = "(fst sw, after ?m (snd sw))"
  have same: "rejections (db_of (snd ?sw1)) = rejections (db_of (snd sw))"
    by (simp add: rejections_kept)
  show ?case
  proof (cases "result ?m (snd sw) = None")
    case True
    then have "after (enqueue_phase E b pf (rt # rs)) sw = after (enqueue_phase E b pf rs) ?sw1"
      "result (enqueue_phase E b pf (rt # rs)) sw = result (enqueue_phase E b pf rs) ?sw1" by simp_all
    with Cons.IH [of ?sw1] same rejection_added_later [OF _ same] show ?thesis
      by (simp del: enqueue_phase.simps)
  next
    case False
    then have "after (enqueue_phase E b pf (rt # rs)) sw =
        after (reject E b ''data'' (Join (rcptAddrs (fst sw)) '','') err_queuing) ?sw1"
      "result (enqueue_phase E b pf (rt # rs)) sw = Some (SMTPError err_queuing)" by auto
    with rejection_added_later [OF reject_records [of E b ?sw1] same] show ?thesis
      by (simp del: enqueue_phase.simps)
  qed
qed simp

section \<open>A whole message\<close>

lemma logged_world_kept:
  "outside_step w (logged_world E b s w raw)"
  "queue_part (logged_world E b s w raw) = queue_part w"
  "rejections (db_of (logged_world E b s w raw)) = rejections (db_of w)"
proof -
  note keep = calls_keepD(1-3) [OF outside_calls [where E = E and b = b]]
  show "outside_step w (logged_world E b s w raw)"
    unfolding logged_world_def by (intro keep outside_refl)
  show "queue_part (logged_world E b s w raw) = queue_part w"
    by (simp add: logged_world_def keepsD) (simp add: run_simps queue_part_def)
  show "rejections (db_of (logged_world E b s w raw)) = rejections (db_of w)"
    by (simp add: logged_world_def rejections_kept)
qed

lemma data_sync_facts:
  "result (data_sync E b s w raw) (s, v) = Inr rs \<Longrightarrow>
     rs = filter (\<lambda>rt. HasWebhook rt \<and> \<not> is_sync b rt) (distinct_routes (ss_rcpts s))"
  "fst (after (data_sync E b s w raw) (s, v)) = s"
  "outside_step v (snd (after (data_sync E b s w raw) (s, v)))"
  "queue_part (snd (after (data_sync E b s w raw) (s, v))) = queue_part v"
  using sync_phase_collects [of E b "data_payload E s w raw" "distinct_routes (ss_rcpts s)" "[]" "(s, v)"]
    outside_sync_phase [where pf = "data_payload E s w raw" and sw = "(s, v)" and E = E and b = b
      and rs = "distinct_routes (ss_rcpts s)" and acc = "[]"]
  by (simp_all add: data_sync_def sync_phase_queue)

lemma data_accepted:
  assumes "result (Data E b (Inr raw)) (s, w) = None" "db_ok (db_of w)"
    and "rt \<in> set (distinct_routes (ss_rcpts s))" "HasWebhook rt"
  shows "if is_sync b rt
    then posted E rt (data_payload E s w raw rt) (snd (after (Data E b (Inr raw)) (s, w)))
    else enqueued E (data_payload E s w raw rt) (snd (after (Data E b (Inr raw)) (s, w)))"
proof -
  let ?pf = "data_payload E s w raw" and ?v = "logged_world E b s w raw"
  let ?sync = "data_sync E b s w raw"
  from assms(1) obtain rs where rs: "result ?sync (s, ?v) = Inr rs"
    and enq: "result (enqueue_phase E b ?pf rs) (after ?sync (s, ?v)) = None"
    by (auto simp: Data_parts(1) split: sum.splits)
  have w': "after (Data E b (Inr raw)) (s, w) = after (enqueue_phase E b ?pf rs) (after ?sync (s, ?v))"
    by (simp add: Data_parts(2) rs)
  have rs_eq: "rs = filter (\<lambda>rt. HasWebhook rt \<and> \<not> is_sync b rt) (distinct_routes (ss_rcpts s))"
    by (rule data_sync_facts(1) [OF rs])
  have ok: "db_ok (db_of (snd (after ?sync (s, ?v))))"
    using outside_ok [OF assms(2)] outside_trans [OF logged_world_kept(1) data_sync_facts(3)] by blast
  show ?thesis
  proof (cases "is_sync b rt")
    case True
    have "posted E rt (?pf rt) (snd (after ?sync (s, ?v)))"
      using sync_phase_posts [OF rs [unfolded data_sync_def]] assms(3,4) True
      by (simp add: data_sync_def)
    moreover have "outside_step (snd (after ?sync (s, ?v))) (snd (after (Data E b (Inr raw)) (s, w)))"
      unfolding w' by (rule calls_keep_enqueue [OF outside_calls]) (auto simp: rs_eq)
    ultimately show ?thesis using True posted_stable by simp
  next
    case False
    then have "rt \<in> set rs" using assms(3,4) by (simp add: rs_eq)
    with enqueue_phase_enqueues [OF enq ok, of] False show ?thesis
      unfolding w' by (simp add: rs_eq)
  qed
qed

text \<open>The routes that are queued for, in order.\<close>

definition async_routes :: "backend \<Rightarrow> session \<Rightarrow> route list" where
  "async_routes b s = filter (\<lambda>rt. HasWebhook rt \<and> \<not> is_sync b rt) (distinct_routes (ss_rcpts s))"

lemma data_refused:
  assumes "result (Data E b (Inr raw)) (s, w) = Some x"
  defines "w' \<equiv> snd (after (Data E b (Inr raw)) (s, w))" and "pf \<equiv> data_payload E s w raw"
  shows "\<exists>rt\<in>set (distinct_routes (ss_rcpts s)). \<exists>e. HasWebhook rt \<and> x = SMTPError e
     \<and> (is_sync b rt \<and> (\<exists>code. e = err_downstream E (rt_name rt) code \<and> sync_failed E rt (pf rt) code w w')
            \<and> queue (db_of w') = queue (db_of w)
        \<or> \<not> is_sync b rt \<and> e = err_queuing \<and> queue_failed E b (pf rt) w'
            \<and> (\<exists>before rest new. async_routes b s = before @ rt # rest
                 \<and> queue (db_of w') = queue (db_of w) @ new \<and> map qu_route new = map rt_name before))
     \<and> (rejections_logged E b \<longrightarrow> rejection_added s ''data'' e w w')"
proof -
  let ?v = "logged_world E b s w raw" and ?sync = "data_sync E b s w raw"
  have sent: "http_sent ?v = http_sent w @ []" by (simp add: logged_world_def keepsD run_simps)
  show ?thesis
  proof (cases "result ?sync (s, ?v)")
    case (Inl y)
    then have y: "x = y" "w' = snd (after ?sync (s, ?v))"
      using assms(1) by (simp_all add: Data_parts w'_def)
    have "queue_part w' = queue_part w"
      unfolding y(2) by (simp add: data_sync_facts(4) logged_world_kept(2))
    then have "queue (db_of w') = queue (db_of w)" by (simp add: queue_part_def)
    moreover from sync_phase_refuses [OF Inl [unfolded data_sync_def]] obtain rt code where
      "rt \<in> set (distinct_routes (ss_rcpts s))" "HasWebhook rt" "is_sync b rt"
      "x = SMTPError (err_downstream E (rt_name rt) code)" "sync_failed E rt (pf rt) code w w'"
      "rejections_logged E b \<longrightarrow> rejection_added s ''data'' (err_downstream E (rt_name rt) code) w w'"
      unfolding y data_sync_def pf_def
      using rejection_added_later [OF _ logged_world_kept(3)] sync_failed_earlier [OF _ sent] by auto
    ultimately show ?thesis by blast
  next
    case (Inr rs)
    let ?sw1 = "after ?sync (s, ?v)"
    have res: "result (enqueue_phase E b pf rs) ?sw1 = Some x"
      and w': "w' = snd (after (enqueue_phase E b pf rs) ?sw1)"
      using assms(1) Inr by (simp_all add: Data_parts w'_def pf_def)
    have same: "rejections (db_of (snd ?sw1)) = rejections (db_of w)"
      using sync_phase_quiet [OF Inr [unfolded data_sync_def]]
      by (simp add: data_sync_def logged_world_kept(3))
    have queue: "queue (db_of (snd ?sw1)) = queue (db_of w)"
      using data_sync_facts(4) [of E b s w raw ?v] logged_world_kept(2) [of E b s w raw]
      by (simp add: queue_part_def)
    from enqueue_phase_outcome [of E b pf rs ?sw1] res have x: "x = SMTPError err_queuing"
      "rejections_logged E b \<longrightarrow> rejection_added s ''data'' err_queuing w w'"
      unfolding w' using rejection_added_later [OF _ same] by (auto simp: data_sync_facts(2))
    have async: "rs = async_routes b s" unfolding async_routes_def by (rule data_sync_facts(1) [OF Inr])
    have "pl_route (pf rt) = rt_name rt" for rt by (simp add: pf_def)
    from enqueue_phase_fails [OF _ this, of E b rs ?sw1] res obtain before rt rest new where
      f: "rs = before @ rt # rest" "queue_failed E b (pf rt) w'"
      "queue (db_of w') = queue (db_of w) @ new" "map qu_route new = map rt_name before"
      unfolding w' queue by auto
    have "rt \<in> set (async_routes b s)" using f(1) by (simp add: async [symmetric])
    then have "rt \<in> set (distinct_routes (ss_rcpts s))" "HasWebhook rt" "\<not> is_sync b rt"
      by (simp_all add: async_routes_def)
    with x f show ?thesis unfolding async by blast
  qed
qed

lemma data_quiet:
  assumes "result (Data E b (Inr raw)) (s, w) = None"
  shows "rejections (db_of (snd (after (Data E b (Inr raw)) (s, w)))) = rejections (db_of w)"
proof -
  let ?pf = "data_payload E s w raw" and ?v = "logged_world E b s w raw"
  let ?sync = "data_sync E b s w raw"
  from assms obtain rs where rs: "result ?sync (s, ?v) = Inr rs"
    and enq: "result (enqueue_phase E b ?pf rs) (after ?sync (s, ?v)) = None"
    by (auto simp: Data_parts(1) split: sum.splits)
  have "rejections (db_of (snd (after ?sync (s, ?v)))) = rejections (db_of w)"
    using sync_phase_quiet [OF rs [unfolded data_sync_def]]
    by (simp add: data_sync_def logged_world_kept(3))
  with enqueue_phase_outcome [of E b ?pf rs "after ?sync (s, ?v)"] enq show ?thesis
    by (simp add: Data_parts(2) rs)
qed

text \<open>A message for capture-only routes is accepted, whatever happens to the log.\<close>

lemma data_captured:
  assumes "\<forall>(a, rt)\<in>set (ss_rcpts s). \<not> HasWebhook rt"
  shows "result (Data E b (Inr raw)) (s, w) = None
    \<and> after (Data E b (Inr raw)) (s, w) = (s, logged_world E b s w raw)"
proof -
  have "\<forall>rt\<in>set (distinct_routes (ss_rcpts s)). \<not> HasWebhook rt"
    using assms distinct_routes_sub by fastforce
  moreover have "\<forall>rt\<in>set rs. \<not> HasWebhook rt \<Longrightarrow> sync_phase E b pf rs [] = State_Monad.return (Inr [])"
    for pf rs
    by (induction rs) simp_all
  ultimately have "sync_phase E b pf (distinct_routes (ss_rcpts s)) [] = State_Monad.return (Inr [])" for pf
    by blast
  then show ?thesis by (simp add: Data_parts data_sync_def)
qed

section \<open>Refusals of every command\<close>

text \<open>An error that is not the session's own, but the SMTP library's, handed back as it came: the
  reader's, or the library's reply to an unknown mechanism.\<close>

definition passed_on :: "command \<Rightarrow> env \<Rightarrow> session_error option" where
  "passed_on c E =
     (case c of
        CmdData (Inl err) \<Rightarrow> Some err
      | CmdAuth mech \<Rightarrow>
          if mech \<in> set AuthMechanisms then None else Some (SMTPError (env_auth_unsupported E))
      | _ \<Rightarrow> None)"

fun stage_of :: "command \<Rightarrow> string" where
  "stage_of (CmdPlain identity u pw) = ''auth''"
| "stage_of (CmdLogin answers) = ''auth''"
| "stage_of (CmdMail from) = ''mail''"
| "stage_of (CmdRcpt rcpt) = ''rcpt''"
| "stage_of (CmdData read) = ''data''"
| "stage_of _ = []"

definition refusal_logged :: "session \<Rightarrow> command \<Rightarrow> world \<Rightarrow> session_error option \<Rightarrow> world \<Rightarrow> bool" where
  "refusal_logged s c w r w' \<longleftrightarrow>
     (case r of
        Some err \<Rightarrow> (\<exists>e. err = SMTPError e \<and> rejection_added s (stage_of c) e w w')
      | None \<Rightarrow> rejections (db_of w') = rejections (db_of w))"

lemma refusal_validate:
  assumes "rejections_logged E b" "stage_of c = ''auth''"
  shows "refusal_logged s c w (result (validate E b u pw) (s, w)) (snd (after (validate E b u pw) (s, w)))"
proof (cases "accepts_password E b u pw")
  case True
  then show ?thesis by (simp add: refusal_logged_def validate_accepts)
next
  case False
  with validate_records [OF assms(1) False, of "(s, w)"] assms(2) show ?thesis
    by (simp add: refusal_logged_def validate_refuses)
qed

lemma refusal_Data:
  assumes "rejections_logged E b"
  shows "refusal_logged s (CmdData (Inr raw)) w (result (Data E b (Inr raw)) (s, w))
    (snd (after (Data E b (Inr raw)) (s, w)))"
proof (cases "result (Data E b (Inr raw)) (s, w)")
  case None
  with data_quiet [OF None] show ?thesis by (simp add: refusal_logged_def)
next
  case (Some x)
  from data_refused [OF Some] assms obtain e where
    "x = SMTPError e" "rejection_added s ''data'' e w (snd (after (Data E b (Inr raw)) (s, w)))"
    by blast
  with Some show ?thesis by (simp add: refusal_logged_def)
qed

lemma passed_on_command:
  assumes "passed_on c E = Some err"
  shows "result (exec_command E b c) sw = Some err \<and> after (exec_command E b c) sw = sw"
proof (cases c)
  case (CmdData rd)
  with assms show ?thesis by (cases rd) (simp_all add: passed_on_def Data_def)
qed (use assms in \<open>simp_all add: passed_on_def Auth_def AuthMechanisms_def split: if_splits\<close>)

lemma refusal_command:
  assumes "rejections_logged E b" "passed_on c E = None"
  shows "refusal_logged s c w (result (exec_command E b c) (s, w)) (snd (after (exec_command E b c) (s, w)))"
proof (cases c)
  case (CmdPlain identity u pw)
  with refusal_validate [OF assms(1), of c s w u pw] show ?thesis by simp
next
  case (CmdLogin as)
  show ?thesis
  proof (cases "login_presents as")
    case None
    with CmdLogin login_command [where as = as and E = E and b = b and sw = "(s, w)"] show ?thesis
      by (simp add: refusal_logged_def del: exec_auth)
  next
    case (Some up)
    with CmdLogin login_command [where as = as and E = E and b = b and sw = "(s, w)"]
      refusal_validate [OF assms(1), of c s w "fst up" "snd up"] show ?thesis
      by (cases up) (simp del: exec_auth)
  qed
next
  case (CmdMail f)
  with reject_records [OF assms(1), of "(s, w)" "''mail''"] show ?thesis
    by (auto simp: Mail_def refusal_logged_def)
next
  case (CmdRcpt a)
  with reject_records [OF assms(1), of "(s, w)" "''rcpt''"] show ?thesis
    by (auto simp: Rcpt_def refusal_logged_def split: option.splits)
next
  case (CmdData rd)
  with assms(2) obtain raw where "rd = Inr raw" by (cases rd) (simp_all add: passed_on_def)
  with CmdData refusal_Data [OF assms(1)] show ?thesis by simp
next
  case (CmdAuth mech)
  with assms(2) show ?thesis
    by (auto simp: passed_on_def Auth_def AuthMechanisms_def refusal_logged_def split: if_splits)
qed (simp_all add: Reset_def Logout_def refusal_logged_def)

section \<open>Properties\<close>

text \<open>C3: accepting a message is a promise kept at that very moment: when \<open>Data\<close> returns no error,
  every route its recipients matched that has a webhook either has answered the message's payload with
  a 2xx status, if it is a sync route, or has exactly that payload in the durable queue, as a job not
  yet attempted. This holds whatever fails on the way.\<close>

theorem Data_accepted:
  fixes E :: env and b :: backend and s :: session and w :: world and raw :: bytes
  assumes "result (Data E b (Inr raw)) (s, w) = None" "db_ok (db_of w)"
    and "inj_on rt_name (snd ` set (ss_rcpts s))" "(a, rt) \<in> set (ss_rcpts s)" "HasWebhook rt"
  defines "p \<equiv> BuildPayload (env_uuid E (n_uuid w)) (env_now E (n_now w)) rt
      (Parse (env_read E) (ss_from s) (map fst (ss_rcpts s)) raw)"
    and "w' \<equiv> snd (after (Data E b (Inr raw)) (s, w))"
  shows "if EffectiveMode rt (dl_default_mode (cf_delivery (bk_cfg b))) = ModeSync
    then \<exists>body out. Marshal E p = Inr body \<and> success_outcome out
      \<and> (webhook_request rt body, out) \<in> set (http_sent w')
    else \<exists>body i t. Marshal E p = Inr body \<and> queue_map (db_of w') i =
      Some (\<lparr>jb_ID = i, jb_MessageID = env_uuid E (n_uuid w), jb_Route = rt_name rt,
             jb_Payload = body, jb_Attempts = 0\<rparr>, t)"
proof -
  have "rt \<in> set (distinct_routes (ss_rcpts s))"
    using set_distinct_routes [OF assms(3)] assms(4) by force
  note acc = data_accepted [OF assms(1,2) this assms(5)]
  have p: "data_payload E s w raw rt = p" "pl_message_id p = env_uuid E (n_uuid w)" "pl_route p = rt_name rt"
    by (simp_all add: data_payload_def rcptAddrs_def p_def BuildPayload_def)
  show ?thesis
    using acc unfolding is_sync_def posted_def enqueued_def p w'_def .
qed

definition accepted_session :: session where
  "accepted_session = (new_session ''10.0.0.1:5'' 587)\<lparr>ss_username := ''alice'', ss_from := ''a@b'',
     ss_rcpts := [(''x@h.example'', signed_route), (''y@h.example'', signed_route)]\<rparr>"

lemma accepted_result:
  assumes "serves_alice b" "snd ` set (ss_rcpts s) \<subseteq> {signed_route}"
  shows "result (Data (env_answering out) b (Inr raw)) (s, w) = None"
proof -
  have "Marshal (env_answering out) p \<noteq> Inl e" for p e by (simp add: Marshal_def env_answering_def)
  then have queued: "result (EnqueuePayload (env_answering out) p) v = None" for p v
    by (cases "Marshal (env_answering out) p")
      (auto simp: EnqueuePayload_def Enqueue_def run_simps wrap_error_None db_exec_Inl)
  then have enq: "result (enqueue_phase (env_answering out) b pf rs) sw = None" for pf rs sw
    by (induction rs arbitrary: sw) simp_all
  have async: "HasWebhook rt \<and> \<not> is_sync b rt" if "rt \<in> set (distinct_routes (ss_rcpts s))" for rt
  proof -
    have "rt = signed_route" using that assms(2) distinct_routes_sub [of "ss_rcpts s"] by blast
    then show ?thesis using assms(1)
      by (simp add: HasWebhook_def is_sync_def EffectiveMode_def signed_route_def serves_alice_def mode_defs)
  qed
  have "\<exists>rs. result (sync_phase (env_answering out) b pf xs acc) sw = Inr rs"
    if "set xs \<subseteq> set (distinct_routes (ss_rcpts s))" for pf xs acc sw
    using that async
    by (induction xs arbitrary: acc) (simp_all add: sync_phase_defer del: sync_phase.simps(2))
  then obtain rs where "result (data_sync (env_answering out) b s w raw)
      (s, logged_world (env_answering out) b s w raw) = Inr rs"
    unfolding data_sync_def by blast
  then show ?thesis by (simp add: Data_parts enq)
qed

theorem Data_accepted_witness:
  "\<exists>i x. queue_map (db_of (snd (after (Data (env_answering (Responded 200)) (example_backend signed_route True)
      (Inr ''hi'')) (accepted_session, initial_world)))) i = Some x"
proof -
  have "db_ok (db_of initial_world)" by (simp add: initial_world_def)
  moreover have "inj_on rt_name (snd ` set (ss_rcpts accepted_session))"
    by (simp add: accepted_session_def)
  moreover have "(''x@h.example'', signed_route) \<in> set (ss_rcpts accepted_session)"
    by (simp add: accepted_session_def)
  moreover have "HasWebhook signed_route" by (simp add: HasWebhook_def signed_route_def)
  moreover have "EffectiveMode signed_route
      (dl_default_mode (cf_delivery (bk_cfg (example_backend signed_route True)))) \<noteq> ModeSync"
    by (simp add: EffectiveMode_def signed_route_def example_backend_def files_config_def mode_defs)
  ultimately show ?thesis
    using Data_accepted [OF accepted_result [where w = initial_world and out = "Responded 200" and raw = "''hi''"
          and s = accepted_session, OF example_serves_alice [of True]],
        of "''x@h.example''" signed_route] by (auto simp: accepted_session_def)
qed

text \<open>C8: when \<open>Data\<close> refuses, there are three reasons only. The client's data could not be read to its
  end: its reader's error is returned and nothing happened. Or the webhook of a sync route failed: the
  reply is a temporary 451 that names the route and the status, the payload of that route was the last
  request sent and was not answered by a 2xx status (or could not be made into a request), and no job
  of this message was queued. Or a payload could not be queued, since its statement failed or it has no
  JSON: the reply is a temporary 451, and of the async routes exactly those before the failing one got
  their job.\<close>

theorem Data_refused:
  fixes E :: env and b :: backend and s :: session and w :: world
  assumes "result (Data E b rd) (s, w) = Some x"
  defines "w' \<equiv> snd (after (Data E b rd) (s, w))"
    and "payload_for \<equiv> \<lambda>raw rt. BuildPayload (env_uuid E (n_uuid w)) (env_now E (n_now w)) rt
      (Parse (env_read E) (ss_from s) (map fst (ss_rcpts s)) raw)"
  shows "case rd of
      Inl err \<Rightarrow> x = err \<and> w' = w
    | Inr raw \<Rightarrow> \<exists>(a, rt)\<in>set (ss_rcpts s). \<exists>e. HasWebhook rt \<and> x = SMTPError e \<and> se_Code e = 451
        \<and> (if EffectiveMode rt (dl_default_mode (cf_delivery (bk_cfg b))) = ModeSync
           then (\<exists>code. e = err_downstream E (rt_name rt) code
                  \<and> sync_failed E rt (payload_for raw rt) code w w')
             \<and> queue (db_of w') = queue (db_of w)
           else e = err_queuing \<and> queue_failed E b (payload_for raw rt) w'
             \<and> (\<exists>before rest new. async_routes b s = before @ rt # rest
                  \<and> queue (db_of w') = queue (db_of w) @ new \<and> map qu_route new = map rt_name before))"
proof (cases rd)
  case (Inl err)
  with assms(1) show ?thesis by (simp add: w'_def Data_def)
next
  case (Inr raw)
  have pf: "data_payload E s w raw = payload_for raw"
    by (simp add: payload_for_def data_payload_def rcptAddrs_def fun_eq_iff)
  from data_refused [OF assms(1) [unfolded Inr], folded Inr, folded w'_def, unfolded pf] obtain rt e where
    r: "rt \<in> set (distinct_routes (ss_rcpts s))" "HasWebhook rt" "x = SMTPError e"
    "is_sync b rt \<and> (\<exists>code. e = err_downstream E (rt_name rt) code \<and> sync_failed E rt (payload_for raw rt) code w w')
       \<and> queue (db_of w') = queue (db_of w)
     \<or> \<not> is_sync b rt \<and> e = err_queuing \<and> queue_failed E b (payload_for raw rt) w'
       \<and> (\<exists>before rest new. async_routes b s = before @ rt # rest
            \<and> queue (db_of w') = queue (db_of w) @ new \<and> map qu_route new = map rt_name before)"
    by (elim bexE exE conjE) (rule that)
  from r(1) distinct_routes_sub obtain a where a: "(a, rt) \<in> set (ss_rcpts s)" by fastforce
  have code: "se_Code e = 451"
    using r(4) by (elim disjE conjE exE) (simp_all add: err_downstream_def err_queuing_def)
  have "P \<and> A \<or> \<not> P \<and> B \<Longrightarrow> if P then A else B" for P A B by auto
  note why = this [OF r(4), unfolded is_sync_def]
  show ?thesis
    unfolding Inr sum.case
    by (rule bexI [OF _ a]) (simp only: prod.case, intro exI conjI, fact r(2), fact r(3), fact code, fact why)
qed

theorem Data_refused_witness:
  "\<exists>e. result (Data (env_answering (Responded 500)) (example_backend (signed_route\<lparr>rt_mode := ''sync''\<rparr>) True)
      (Inr ''hi'')) (accepted_session\<lparr>ss_rcpts := [(''x'', signed_route\<lparr>rt_mode := ''sync''\<rparr>)]\<rparr>, initial_world)
    = Some (SMTPError e) \<and> se_Code e = 451"
proof -
  let ?E = "env_answering (Responded 500)" and ?rt = "signed_route\<lparr>rt_mode := ''sync''\<rparr>"
  let ?b = "example_backend ?rt True" and ?s = "accepted_session\<lparr>ss_rcpts := [(''x'', ?rt)]\<rparr>"
  have rt: "HasWebhook ?rt" "is_sync ?b ?rt"
    by (simp_all add: HasWebhook_def is_sync_def EffectiveMode_def signed_route_def mode_defs)
  have "snd (result (DeliverSync ?E d rt p) v) \<noteq> None" for d rt p v
    using attempt_success [of ?E rt _ v]
    by (auto simp: DeliverSync_def env_answering_def split: sum.splits)
  from sync_phase_failed [OF rt this, where rs = "[]" and acc = "[]"]
  obtain x where x: "result (Data ?E ?b (Inr ''hi'')) (?s, initial_world) = Some x"
    by (simp add: Data_parts data_sync_def distinct_routes_def accepted_session_def
        del: sync_phase.simps(2))
  from Data_refused [OF x] x show ?thesis by auto
qed

text \<open>C12: exactly the session's own refusals are recorded. With rejection logging on and a working
  database, every command the session refuses itself is refused with an SMTP error and adds one row to
  the rejection log, with the stage, the code and the reason of the reply and the client's address and
  port; a command it accepts adds none. An error of the SMTP library that the session hands back, the
  reader's for data that is too large or the one for an unknown mechanism, is returned as it came and
  recorded nowhere, although it too can be an SMTP error.\<close>

theorem refusals_recorded:
  fixes E :: env and b :: backend and s :: session and w :: world and c :: command
  assumes "db_reliable E" "st_logRejections (bk_store b)"
  defines "w' \<equiv> snd (after (exec_command E b c) (s, w))"
  shows "case passed_on c E of
      Some err \<Rightarrow> result (exec_command E b c) (s, w) = Some err \<and> w' = w
    | None \<Rightarrow>
        (case result (exec_command E b c) (s, w) of
           Some err \<Rightarrow> (\<exists>e r. err = SMTPError e \<and> rejections (db_of w') = rejections (db_of w) @ [r]
             \<and> rj_stage r = stage_of c \<and> rj_code r = se_Code e \<and> rj_reason r = se_Message e
             \<and> rj_remote_addr r = ss_remote s \<and> rj_port r = Some (ss_localPort s))
         | None \<Rightarrow> rejections (db_of w') = rejections (db_of w))"
proof (cases "passed_on c E")
  case None
  have "rejections_logged E b" using assms(1,2) by (simp add: rejections_logged_def)
  from refusal_command [OF this None, of s w] None show ?thesis
    unfolding w'_def refusal_logged_def rejection_added_def by (auto split: option.splits)
next
  case (Some err)
  with passed_on_command [OF Some, of b "(s, w)"] show ?thesis by (simp add: w'_def)
qed

theorem refusals_recorded_witness:
  "\<exists>r. rejections (db_of (snd (after (exec_command (env_answering (Responded 200))
      (example_backend signed_route True) (CmdMail ''a@b'')) (new_session ''10.0.0.1:5'' 25, initial_world))))
    = [r] \<and> rj_stage r = ''mail'' \<and> rj_code r = 530"
  using refusals_recorded [of "env_answering (Responded 200)" "example_backend signed_route True"
      "CmdMail ''a@b''" "new_session ''10.0.0.1:5'' 25" initial_world]
  by (simp add: passed_on_def Mail_def new_session_def err_auth_required_def)
    (auto simp: example_backend_def initial_world_def empty_db_def)

text \<open>C23: a message for capture-only routes is always accepted, since nothing is delivered for it;
  the log is its only copy. When the statement that stores it fails, the reply is still positive and
  no table and no webhook has a trace of the message: it is lost.\<close>

theorem capture_only_lost:
  fixes E :: env and b :: backend and s :: session and w :: world and raw :: bytes
  assumes "\<forall>(a, rt)\<in>set (ss_rcpts s). \<not> HasWebhook rt"
  defines "sw' \<equiv> after (Data E b (Inr raw)) (s, w)"
  shows "result (Data E b (Inr raw)) (s, w) = None
    \<and> http_sent (snd sw') = http_sent w \<and> queue (db_of (snd sw')) = queue (db_of w)
    \<and> (env_db_error E (n_stmt w) \<noteq> None \<longrightarrow> db_of (snd sw') = db_of w)
    \<and> (env_db_error E (n_stmt w) = None \<and> st_logContent (bk_store b) \<longrightarrow>
         (\<exists>m\<in>set (messages (db_of (snd sw'))). ms_id m = env_uuid E (n_uuid w) \<and> ms_raw m = raw))"
proof -
  note cap = data_captured [OF assms(1), of E b raw w]
  have sw': "snd sw' = logged_world E b s w raw" by (simp add: sw'_def cap)
  have "queue (db_of (snd sw')) = queue (db_of w)"
    using logged_world_kept(2) [of E b s w raw] by (simp add: sw' queue_part_def)
  moreover have "http_sent (snd sw') = http_sent w"
    by (simp add: sw' logged_world_def keepsD run_simps)
  moreover have "env_db_error E (n_stmt w) \<noteq> None \<longrightarrow> db_of (snd sw') = db_of w"
    by (auto simp: sw' logged_world_def LogMessage_def after_db_exec next_stmt_ok_def run_simps)
  moreover have "env_db_error E (n_stmt w) = None \<and> st_logContent (bk_store b) \<longrightarrow>
      (\<exists>m\<in>set (messages (db_of (snd sw'))). ms_id m = env_uuid E (n_uuid w) \<and> ms_raw m = raw)"
    by (auto simp: sw' logged_world_def LogMessage_def after_db_exec next_stmt_ok_def run_simps
        sql_replace_message_def message_row_of_def message_log_of_def)
  ultimately show ?thesis using conjunct1 [OF cap] by (intro conjI)
qed

theorem capture_only_lost_witness:
  "result (Data env_db_down (example_backend signed_route True) (Inr ''hi''))
      (accepted_session\<lparr>ss_rcpts := [(''x'', signed_route\<lparr>rt_webhook := (rt_webhook signed_route)\<lparr>wh_url := []\<rparr>\<rparr>)]\<rparr>,
       initial_world) = None"
proof -
  let ?s = "accepted_session\<lparr>ss_rcpts :=
      [(''x'', signed_route\<lparr>rt_webhook := (rt_webhook signed_route)\<lparr>wh_url := []\<rparr>\<rparr>)]\<rparr>"
  have "\<forall>(a, rt)\<in>set (ss_rcpts ?s). \<not> HasWebhook rt" by (simp add: HasWebhook_def)
  from capture_only_lost [OF this] show ?thesis by blast
qed

end
