(* ===== verification/Listeners.thy ===== *)
theory Listeners
  imports Submission
begin

text \<open>
  The outer part of \<^verbatim>\<open>internal/server/server.go\<close>: building the server from a configuration, the
  settings handed to the SMTP library for each listener, binding and closing the listeners, and who may
  connect and authenticate.

  Binding an address is a call of the environment: \<open>listen n address\<close> is the bound address, or the
  error, of the \<open>n\<close>-th call. The goroutine that serves a bound listener only runs the SMTP library.
\<close>

section \<open>Servers\<close>

record 'c smtp_server =
  sm_Domain :: string
  sm_ReadTimeout :: int
  sm_WriteTimeout :: int
  sm_MaxMessageBytes :: int
  sm_MaxRecipients :: int
  sm_TLSConfig :: "'c tls_config option"
  sm_AllowInsecureAuth :: bool
  sm_closed :: bool

text \<open>A bound listener: its address, and whether the connections are wrapped in TLS from the first byte.\<close>

record bound_listener =
  bl_address :: string
  bl_implicit_tls :: bool

record 'c server =
  sv_be :: backend
  sv_tlsConfig :: "'c tls_config option"
  sv_servers :: "'c smtp_server list"
  sv_lns :: "bound_listener list"

definition new_server ::
  "config \<Rightarrow> deliverer \<Rightarrow> store \<Rightarrow> 'c tls_config option \<Rightarrow> 'c server option" where
  "new_server cfg d st tlsConfig =
     map_option (\<lambda>be. \<lparr>sv_be = be, sv_tlsConfig = tlsConfig, sv_servers = [], sv_lns = []\<rparr>)
       (new_backend cfg d st)"

definition newSMTPServer :: "'c server \<Rightarrow> listener \<Rightarrow> 'c smtp_server" where
  "newSMTPServer sv l =
     (let cfg = bk_cfg (sv_be sv);
          srv = \<lparr>sm_Domain = cf_hostname cfg, sm_ReadTimeout = cf_read_timeout cfg,
                 sm_WriteTimeout = cf_write_timeout cfg,
                 sm_MaxMessageBytes = cf_max_message_bytes cfg, sm_MaxRecipients = 100,
                 sm_TLSConfig = None, sm_AllowInsecureAuth = False, sm_closed = False\<rparr>
      in if ls_tls l = TLSModeStartTLS
         then srv\<lparr>sm_TLSConfig := sv_tlsConfig sv, sm_AllowInsecureAuth := ls_insecure_auth l\<rparr>
         else if ls_tls l = TLSModeImplicit
         then srv\<lparr>sm_TLSConfig := sv_tlsConfig sv, sm_AllowInsecureAuth := False\<rparr>
         else srv\<lparr>sm_AllowInsecureAuth := True\<rparr>)"

definition Close :: "'c server \<Rightarrow> 'c server" where
  "Close sv = sv\<lparr>sv_servers := map (\<lambda>srv. srv\<lparr>sm_closed := True\<rparr>) (sv_servers sv)\<rparr>"

definition Addrs :: "'c server \<Rightarrow> string list" where
  "Addrs sv = map bl_address (sv_lns sv)"

fun serve_listeners ::
  "(nat \<Rightarrow> string \<Rightarrow> string + string) \<Rightarrow> 'c server \<Rightarrow> listener list \<Rightarrow> goerror \<times> 'c server" where
  "serve_listeners listen sv [] = (None, sv)"
| "serve_listeners listen sv (l # ls) =
     (case listen (length (sv_lns sv)) (ls_address l) of
        Inl err \<Rightarrow> (Some (''listen '' @ ls_address l @ '': '' @ err), Close sv)
      | Inr bound \<Rightarrow>
          serve_listeners listen
            (sv\<lparr>sv_servers := sv_servers sv @ [newSMTPServer sv l],
                sv_lns := sv_lns sv @
                  [\<lparr>bl_address = bound, bl_implicit_tls = (ls_tls l = TLSModeImplicit)\<rparr>]\<rparr>) ls)"

definition Serve :: "(nat \<Rightarrow> string \<Rightarrow> string + string) \<Rightarrow> 'c server \<Rightarrow> goerror \<times> 'c server" where
  "Serve listen sv = serve_listeners listen sv (cf_listeners (bk_cfg (sv_be sv)))"

section \<open>Lemmas\<close>

lemma newSMTPServer_cong:
  "sv_be sv = sv_be sv' \<Longrightarrow> sv_tlsConfig sv = sv_tlsConfig sv' \<Longrightarrow> newSMTPServer sv l = newSMTPServer sv' l"
  by (simp add: newSMTPServer_def Let_def)

text \<open>What binding the listeners \<open>ls\<close> adds, if every call succeeds, and the state it stops in.\<close>

lemma serve_listeners_spec:
  "case serve_listeners listen sv ls of
      (None, sv') \<Rightarrow> sv_servers sv' = sv_servers sv @ map (newSMTPServer sv) ls
        \<and> map bl_implicit_tls (sv_lns sv') = map bl_implicit_tls (sv_lns sv)
            @ map (\<lambda>l. ls_tls l = TLSModeImplicit) ls
        \<and> length (sv_lns sv') = length (sv_lns sv) + length ls
    | (Some err, sv') \<Rightarrow> (\<exists>before l after_l e. ls = before @ l # after_l
        \<and> err = ''listen '' @ ls_address l @ '': '' @ e
        \<and> sv_servers sv' = map (\<lambda>srv. srv\<lparr>sm_closed := True\<rparr>)
            (sv_servers sv @ map (newSMTPServer sv) before))"
proof (induction ls arbitrary: sv)
  case (Cons l ls)
  show ?case
  proof (cases "listen (length (sv_lns sv)) (ls_address l)")
    case (Inl e)
    then show ?thesis by (auto simp: Close_def intro!: exI [of _ "[]"])
  next
    case (Inr bound)
    let ?sv1 = "sv\<lparr>sv_servers := sv_servers sv @ [newSMTPServer sv l],
        sv_lns := sv_lns sv @ [\<lparr>bl_address = bound, bl_implicit_tls = (ls_tls l = TLSModeImplicit)\<rparr>]\<rparr>"
    have same: "newSMTPServer ?sv1 = newSMTPServer sv"
      by (rule ext, rule newSMTPServer_cong) simp_all
    have rec: "serve_listeners listen sv (l # ls) = serve_listeners listen ?sv1 ls" by (simp add: Inr)
    obtain err sv' where r: "serve_listeners listen ?sv1 ls = (err, sv')" by fastforce
    show ?thesis
    proof (cases err)
      case None
      with Cons.IH [of ?sv1] r show ?thesis unfolding rec by (simp add: same)
    next
      case (Some e)
      obtain before l' rest e' where o: "ls = before @ l' # rest"
        "e = ''listen '' @ ls_address l' @ '': '' @ e'"
        "sv_servers sv' = map (\<lambda>srv. srv\<lparr>sm_closed := True\<rparr>)
            (sv_servers ?sv1 @ map (newSMTPServer sv) before)"
        using Cons.IH [of ?sv1] unfolding r Some same prod.case option.case
        by (elim exE conjE) (rule that)
      have "l # ls = (l # before) @ l' # rest
          \<and> sv_servers sv' = map (\<lambda>srv. srv\<lparr>sm_closed := True\<rparr>)
              (sv_servers sv @ map (newSMTPServer sv) (l # before))"
        using o(1,3) by simp
      with o(2) show ?thesis unfolding rec r Some prod.case option.case by blast
    qed
  qed
qed simp

lemma parse_nets_Some:
  "parse_nets cs = Some ns \<Longrightarrow> map Some ns = map ParseCIDR cs"
  by (induction cs arbitrary: ns) (auto split: option.splits)

lemma parse_nets_None: "parse_nets cs = None \<longleftrightarrow> (\<exists>c\<in>set cs. ParseCIDR c = None)"
  by (induction cs) (auto split: option.splits)

lemma new_backend_Some:
  "new_backend cfg d st = Some b \<Longrightarrow> bk_cfg b = cfg \<and> bk_routes b = cf_routes cfg
     \<and> bk_users b = users_of (cf_routes cfg) \<and> bk_store b = st \<and> bk_deliverer b = d
     \<and> map Some (bk_allowNets b) = map ParseCIDR (au_allow_ips (cf_auth cfg))"
  by (auto simp: new_backend_def parse_nets_Some)

text \<open>For a validated configuration whose passwords hold no NUL byte, a user's credential is that of
  each of its routes, although the map is filled in order.\<close>

lemma users_of_valid:
  assumes "routes_ok c" "\<forall>r\<in>set (cf_routes c). nul \<notin> set (rt_password r)" "rt \<in> set (cf_routes c)"
  shows "users_of (cf_routes c) (rt_username rt) = Some (credential_of rt)"
proof -
  have "users_of (cf_routes c) (rt_username rt) \<noteq> None" using assms(3) unfolding users_of_None by blast
  then obtain cr where cr: "users_of (cf_routes c) (rt_username rt) = Some cr" by blast
  from users_of_Some [OF cr] obtain r where
    r: "r \<in> set (cf_routes c)" "rt_username r = rt_username rt" "cr = credential_of r" by blast
  have "route_cred r = route_cred rt" using assms(1,3) r(1,2) unfolding routes_ok_def by blast
  moreover have "nul \<notin> set (rt_password r)" "nul \<notin> set (rt_password rt)"
    using assms(2,3) r(1) by blast+
  ultimately have "credential_of r = credential_of rt" by (rule route_cred_inj)
  then show ?thesis unfolding cr r(3) by (rule arg_cong)
qed

section \<open>Properties\<close>

text \<open>C13: plaintext passwords. The SMTP library is told to allow AUTH without TLS exactly on the
  listeners that are neither STARTTLS nor implicit TLS, and on STARTTLS listeners that opted in; for a
  validated configuration and the certificate source built from it, every STARTTLS or implicit-TLS
  listener gets a certificate, and exactly the implicit ones speak TLS from the first byte; and when
  \<open>Serve\<close> reports an error, every server started before it is closed.\<close>

theorem listener_policy:
  assumes "valid_config getenv cfg" "new_server cfg d st tls = Some sv"
    and "Build getenv quote load_pair manage (cf_tls cfg) = Inr tls"
  shows "case Serve listen sv of
      (None, sv') \<Rightarrow> length (sv_servers sv') = length (cf_listeners cfg)
        \<and> length (Addrs sv') = length (cf_listeners cfg)
        \<and> (\<forall>k<length (cf_listeners cfg).
            (let l = cf_listeners cfg ! k; srv = sv_servers sv' ! k in
             (sm_AllowInsecureAuth srv \<longleftrightarrow>
                ls_tls l = TLSModeNone \<or> ls_tls l = TLSModeStartTLS \<and> ls_insecure_auth l)
             \<and> (sm_TLSConfig srv \<noteq> None \<longleftrightarrow> NeedsCert l)
             \<and> bl_implicit_tls (sv_lns sv' ! k) = (ls_tls l = TLSModeImplicit)
             \<and> sm_MaxMessageBytes srv = cf_max_message_bytes cfg \<and> sm_MaxRecipients srv = 100))
    | (Some err, sv') \<Rightarrow> (\<forall>srv\<in>set (sv_servers sv'). sm_closed srv)"
proof -
  from assms(2) obtain be where be: "new_backend cfg d st = Some be"
    and sv: "sv = \<lparr>sv_be = be, sv_tlsConfig = tls, sv_servers = [], sv_lns = []\<rparr>"
    by (auto simp: new_server_def)
  have cfg: "bk_cfg be = cfg" using new_backend_Some [OF be] by blast
  have tlsok: "tls_ok getenv cfg" and modes: "\<forall>l\<in>set (cf_listeners cfg). listener_ok l"
    using assms(1) by (simp_all add: valid_config_def)
  have cert: "\<exists>l\<in>set (cf_listeners cfg). NeedsCert l \<Longrightarrow> tls \<noteq> None"
    using Build_outcome [OF tlsok assms(3)] by simp
  have policy: "(sm_AllowInsecureAuth (newSMTPServer sv l) \<longleftrightarrow>
        ls_tls l = TLSModeNone \<or> ls_tls l = TLSModeStartTLS \<and> ls_insecure_auth l)
      \<and> (sm_TLSConfig (newSMTPServer sv l) \<noteq> None \<longleftrightarrow> NeedsCert l)
      \<and> sm_MaxMessageBytes (newSMTPServer sv l) = cf_max_message_bytes cfg
      \<and> sm_MaxRecipients (newSMTPServer sv l) = 100" if "l \<in> set (cf_listeners cfg)" for l
  proof -
    have "ls_tls l \<in> {TLSModeNone, TLSModeStartTLS, TLSModeImplicit}"
      using modes that by (simp add: listener_ok_def)
    moreover have "NeedsCert l \<Longrightarrow> tls \<noteq> None" using cert that by blast
    ultimately show ?thesis
      by (auto simp: newSMTPServer_def Let_def sv cfg NeedsCert_def mode_defs)
  qed
  obtain err sv' where r: "serve_listeners listen sv (cf_listeners cfg) = (err, sv')" by fastforce
  have serve: "Serve listen sv = (err, sv')" by (simp add: Serve_def sv cfg r [unfolded sv])
  note spec = serve_listeners_spec [where ls = "cf_listeners cfg" and listen = listen and sv = sv, unfolded r]
  show ?thesis
  proof (cases err)
    case None
    with spec have srv: "sv_servers sv' = map (newSMTPServer sv) (cf_listeners cfg)"
      and tls: "map bl_implicit_tls (sv_lns sv') = map (\<lambda>l. ls_tls l = TLSModeImplicit) (cf_listeners cfg)"
      and len: "length (sv_lns sv') = length (cf_listeners cfg)"
      by (simp_all add: sv)
    have "bl_implicit_tls (sv_lns sv' ! k) = (ls_tls (cf_listeners cfg ! k) = TLSModeImplicit)"
      if "k < length (cf_listeners cfg)" for k
      using arg_cong [OF tls, of "\<lambda>xs. xs ! k"] that len by simp
    with policy srv len show ?thesis by (simp add: serve None Addrs_def Let_def)
  next
    case (Some e)
    with spec show ?thesis by (auto simp: serve)
  qed
qed

definition listening_config :: config where
  "listening_config = files_config\<lparr>cf_routes := [signed_route]\<rparr>"

lemma listening_config_valid: "valid_config (\<lambda>_. []) listening_config"
  by (simp add: valid_config_def listening_config_def files_config_def listener_ok_def tls_ok_def
      routes_ok_def route_ok_def signed_route_def HasWebhook_def EffectiveMode_def mode_defs)

theorem listener_policy_witness:
  "\<exists>sv. new_server listening_config (example_deliverer 3) \<lparr>st_logContent = True, st_logRejections = True\<rparr>
      (Some \<lparr>tc_certs = StaticCertificates [''cert''], tc_next_protos = []\<rparr>) = Some sv
    \<and> length (sv_servers (snd (Serve (\<lambda>n a. Inr a) sv))) = 1
    \<and> \<not> sm_AllowInsecureAuth (sv_servers (snd (Serve (\<lambda>n a. Inr a) sv)) ! 0)"
proof -
  let ?st = "\<lparr>st_logContent = True, st_logRejections = True\<rparr>"
  let ?tls = "Some \<lparr>tc_certs = StaticCertificates [''cert''], tc_next_protos = []\<rparr>"
  obtain sv where sv: "new_server listening_config (example_deliverer 3) ?st ?tls = Some sv"
    by (simp add: new_server_def new_backend_def listening_config_def files_config_def)
  have b: "Build (\<lambda>_. []) id (\<lambda>c k. Inr ''cert'') (\<lambda>_. Inr []) (cf_tls listening_config) = Inr ?tls"
    by (simp add: Build_def listening_config_def files_config_def mode_defs)
  have none: "fst (Serve (\<lambda>n a. Inr a) sv) = None"
    using sv by (auto simp: Serve_def new_server_def new_backend_def listening_config_def files_config_def)
  have n: "cf_listeners listening_config = [\<lparr>ls_address = '':465'', ls_tls = ''implicit'', ls_insecure_auth = False\<rparr>]"
    by (simp add: listening_config_def files_config_def)
  have "length (sv_servers (snd (Serve (\<lambda>n a. Inr a) sv))) = 1
      \<and> \<not> sm_AllowInsecureAuth (sv_servers (snd (Serve (\<lambda>n a. Inr a) sv)) ! 0)"
    using listener_policy [OF listening_config_valid sv b, of "\<lambda>n a. Inr a"] none
    by (simp add: n mode_defs Let_def case_prod_beta split: option.splits)
  with sv show ?thesis by blast
qed

text \<open>C14: the allowlist. With one configured, a connection gets a session exactly when its remote
  address parses and lies in one of the configured networks; otherwise the client is refused with 550
  before it can say anything, and the refusal is recorded under \<open>connect\<close>. An IPv6 client with a
  zone in its address is always refused, whatever networks are configured.\<close>

theorem NewSession_allowlist:
  fixes E :: env and b :: backend and remote :: string and laddr :: local_addr and w :: world
  assumes "new_backend cfg d st = Some b" "au_allow_ips (cf_auth cfg) \<noteq> []"
  defines "host \<equiv> fst (SplitHostPort remote)"
  shows "((\<exists>s. result (NewSession E b remote laddr) w = Inr s) \<longleftrightarrow>
      (\<exists>ip. ParseIP host = Some ip \<and>
        (\<exists>cidr\<in>set (au_allow_ips (cf_auth cfg)). \<exists>n. ParseCIDR cidr = Some n \<and> net_contains n ip)))
    \<and> (CHR ''%'' \<in> set host \<longrightarrow> isl (result (NewSession E b remote laddr) w))
    \<and> (isl (result (NewSession E b remote laddr) w) \<longrightarrow>
        result (NewSession E b remote laddr) w = Inl err_not_permitted
        \<and> (db_reliable E \<and> st_logRejections st \<longrightarrow>
             (\<exists>r. rejections (db_of (after (NewSession E b remote laddr) w)) = rejections (db_of w) @ [r]
                \<and> rj_stage r = ''connect'' \<and> rj_code r = 550 \<and> rj_remote_addr r = remote)))"
proof -
  note b = new_backend_Some [OF assms(1)]
  have ne: "bk_allowNets b \<noteq> []" using b assms(2) by auto
  have nets: "set (map Some (bk_allowNets b)) = ParseCIDR ` set (au_allow_ips (cf_auth cfg))"
    using b by (metis list.set_map)
  have allowed: "ipAllowed b ip \<longleftrightarrow>
      (\<exists>cidr\<in>set (au_allow_ips (cf_auth cfg)). \<exists>n. ParseCIDR cidr = Some n \<and> net_contains n ip)" for ip
  proof -
    have "ipAllowed b ip \<longleftrightarrow> (\<exists>x\<in>set (map Some (bk_allowNets b)). \<exists>n. x = Some n \<and> net_contains n ip)"
      by (auto simp: ipAllowed_def list_ex_iff)
    then show ?thesis unfolding nets by auto
  qed
  let ?ok = "\<exists>ip. ParseIP host = Some ip \<and> ipAllowed b ip"
  have good: "?ok \<Longrightarrow> result (NewSession E b remote laddr) w = Inr (new_session remote (localPort laddr))"
    using ne by (auto simp: NewSession_def host_def)
  have bad: "\<not> ?ok \<Longrightarrow> result (NewSession E b remote laddr) w = Inl err_not_permitted
      \<and> after (NewSession E b remote laddr) w = after (recordRejection E b ''connect'' remote
          (localPort laddr) [] [] [] err_not_permitted) w"
    using ne by (auto simp: NewSession_def host_def Let_def split: option.splits)
  have "(\<exists>s. result (NewSession E b remote laddr) w = Inr s) \<longleftrightarrow> ?ok"
    using good bad by (cases ?ok) auto
  moreover have "isl (result (NewSession E b remote laddr) w) \<longleftrightarrow> \<not> ?ok"
    using good bad by (cases ?ok) auto
  moreover have "CHR ''%'' \<in> set host \<longrightarrow> \<not> ?ok" using ParseIP_zone by auto
  moreover have "\<exists>r. rejections (db_of (after (NewSession E b remote laddr) w)) = rejections (db_of w) @ [r]
      \<and> rj_stage r = ''connect'' \<and> rj_code r = 550 \<and> rj_remote_addr r = remote"
    if "\<not> ?ok" "db_reliable E \<and> st_logRejections st"
  proof -
    have "rejections_logged E b" using that(2) b by (simp add: rejections_logged_def)
    from recordRejection_row [OF this, of "''connect''" remote "localPort laddr" "[]" "[]" "[]"
        err_not_permitted w] bad [OF that(1)]
    show ?thesis by (auto simp: err_not_permitted_def)
  qed
  ultimately show ?thesis using bad by (simp add: allowed)
qed

definition fenced_config :: config where
  "fenced_config = listening_config\<lparr>cf_auth := \<lparr>au_allow_ips = [''10.0.0.0/8'']\<rparr>\<rparr>"

theorem NewSession_allowlist_witness:
  "\<exists>b. new_backend fenced_config (example_deliverer 3) \<lparr>st_logContent = True, st_logRejections = True\<rparr> = Some b
    \<and> isl (result (NewSession run_env b ''[fe80::1%eth0]:5'' (TCPAddr 25)) initial_world)"
proof -
  let ?st = "\<lparr>st_logContent = True, st_logRejections = True\<rparr>"
  have "ParseCIDR ''10.0.0.0/8'' \<noteq> None" by code_simp
  then obtain b where b: "new_backend fenced_config (example_deliverer 3) ?st = Some b"
    by (auto simp: new_backend_def fenced_config_def)
  have ne: "au_allow_ips (cf_auth fenced_config) \<noteq> []" by (simp add: fenced_config_def)
  have "fst (SplitHostPort ''[fe80::1%eth0]:5'') = ''fe80::1%eth0''" by code_simp
  then have "CHR ''%'' \<in> set (fst (SplitHostPort ''[fe80::1%eth0]:5''))" by simp
  with NewSession_allowlist [OF b ne, where remote = "''[fe80::1%eth0]:5''" and laddr = "TCPAddr 25"
      and E = run_env and w = initial_world] b
  show ?thesis by blast
qed

text \<open>C15: the password of any of a user's routes is the user's password: for a validated
  configuration whose passwords hold no NUL byte, a login succeeds exactly when the user owns a route
  and the password is the one configured on it, in clear or as a bcrypt hash, and it does not matter
  which of the user's routes is looked at.\<close>

theorem login_by_route_password:
  assumes "valid_config getenv cfg" "\<forall>r\<in>set (cf_routes cfg). nul \<notin> set (rt_password r)"
    and "new_backend cfg d st = Some b"
  shows "(result (validate E b u pw) sw = None \<longleftrightarrow>
      (\<exists>rt\<in>set (cf_routes cfg). rt_username rt = u \<and>
        (if rt_password_bcrypt rt \<noteq> [] then env_bcrypt E (rt_password_bcrypt rt) pw
         else rt_password rt = pw)))
    \<and> (\<forall>rt\<in>set (cf_routes cfg). rt_username rt = u \<and> rt_password_bcrypt rt = [] \<longrightarrow>
        (result (validate E b u pw) sw = None \<longleftrightarrow> pw = rt_password rt))"
proof -
  have ok: "routes_ok cfg" using assms(1) by (simp add: valid_config_def)
  have users: "bk_users b = users_of (cf_routes cfg)" using new_backend_Some [OF assms(3)] by blast
  have ct: "ConstantTimeCompare p q = 1 \<longleftrightarrow> p = q" for p q by (simp add: ConstantTimeCompare_def)
  have check: "checkPassword E (credential_of rt) pw \<longleftrightarrow>
      (if rt_password_bcrypt rt \<noteq> [] then env_bcrypt E (rt_password_bcrypt rt) pw
       else rt_password rt = pw)" for rt
    by (simp add: checkPassword_def credential_of_def ct)
  have own: "accepts_password E b u pw \<longleftrightarrow> checkPassword E (credential_of rt) pw"
    if "rt \<in> set (cf_routes cfg)" "rt_username rt = u" for rt
    using users_of_valid [OF ok assms(2) that(1)] that(2) by (simp add: accepts_password_def users)
  have none: "\<not> accepts_password E b u pw" if "\<forall>rt\<in>set (cf_routes cfg). rt_username rt \<noteq> u"
    using that by (simp add: accepts_password_def users users_of_None [symmetric] split: option.splits)
  have res: "result (validate E b u pw) sw = None \<longleftrightarrow> accepts_password E b u pw"
    by (rule au.accepts_iff)
  show ?thesis unfolding res
  proof (intro conjI ballI impI)
    show "accepts_password E b u pw \<longleftrightarrow> (\<exists>rt\<in>set (cf_routes cfg). rt_username rt = u \<and>
        (if rt_password_bcrypt rt \<noteq> [] then env_bcrypt E (rt_password_bcrypt rt) pw
         else rt_password rt = pw))"
      using own none unfolding check [symmetric] by blast
  next
    fix rt
    assume "rt \<in> set (cf_routes cfg)" "rt_username rt = u \<and> rt_password_bcrypt rt = []"
    with own [of rt] show "accepts_password E b u pw \<longleftrightarrow> pw = rt_password rt" by (auto simp: check)
  qed
qed

theorem login_by_route_password_witness:
  "\<exists>b. result (validate (env_answering (Responded 200)) b ''alice'' ''s3cret'')
     (new_session ''10.0.0.1:5'' 587, initial_world) = None"
proof -
  let ?st = "\<lparr>st_logContent = True, st_logRejections = True\<rparr>"
  obtain b where b: "new_backend listening_config (example_deliverer 3) ?st = Some b"
    by (auto simp: new_backend_def listening_config_def files_config_def)
  have routes: "cf_routes listening_config = [signed_route]" by (simp add: listening_config_def)
  have "\<forall>r\<in>set (cf_routes listening_config). nul \<notin> set (rt_password r)"
    by (simp add: routes signed_route_def nul_def char_of_eq_iff)
  from login_by_route_password [OF listening_config_valid this b, of "env_answering (Responded 200)"
      "''alice''" "''s3cret''" "(new_session ''10.0.0.1:5'' 587, initial_world)"]
  show ?thesis by (auto simp: routes signed_route_def)
qed

end
