(* ===== verification/Web.thy ===== *)
theory Web
  imports Submission
begin

text \<open>
  \<^verbatim>\<open>internal/web/web.go\<close>: the status web interface. A request carries its method, the decoded segments
  of its path, its query and the outcome of parsing its form; the multiplexer's choice of handler is
  \<open>dispatch\<close>. A response holds the status and the data handed to the template: rendering the data as
  HTML is the template library's work.
\<close>

section \<open>Requests and responses\<close>

type_synonym form = "string \<Rightarrow> string list"

record web_request =
  rq_method :: string
  rq_segments :: "string list"
  rq_query :: form
  rq_form :: "string + form"

datatype page =
    ListPage "message_summary list"
  | DetailPage stored_message message
  | RejectionsPage "rejection list"

datatype web_response =
    HTTPError int string
  | NotFound
  | MethodNotAllowed
  | Redirect string
  | Render page
  | PlainText bytes

definition form_get :: "form \<Rightarrow> string \<Rightarrow> string" where
  "form_get f k = (case f k of [] \<Rightarrow> [] | v # _ \<Rightarrow> v)"

definition queryInt :: "web_request \<Rightarrow> string \<Rightarrow> int \<Rightarrow> int" where
  "queryInt r key d =
     (let v = form_get (rq_query r) key in
      if v \<noteq> [] then
        (case ParseInt v of Some n \<Rightarrow> if n > 0 then n else d | None \<Rightarrow> d)
      else d)"

definition splitRcpt :: "string \<Rightarrow> string list" where
  "splitRcpt s = map TrimSpace (Split_on CHR '','' s)"

section \<open>Handlers\<close>

definition handleDeleteRejections :: "env \<Rightarrow> web_request \<Rightarrow> (world, web_response) state" where
  "handleDeleteRejections E r =
     (case rq_form r of
        Inl err \<Rightarrow> State_Monad.return (HTTPError 400 err)
      | Inr f \<Rightarrow>
          if form_get f ''all'' \<noteq> [] then do {
            x \<leftarrow> DeleteAllRejections E;
            State_Monad.return
              (case x of Inl err \<Rightarrow> HTTPError 500 err | Inr _ \<Rightarrow> Redirect ''/rejections'')
          }
          else (let ids = List.map_filter ParseInt (f ''id'') in
            if ids \<noteq> [] then do {
              x \<leftarrow> DeleteRejections E ids;
              State_Monad.return
                (case x of Inl err \<Rightarrow> HTTPError 500 err | Inr _ \<Rightarrow> Redirect ''/rejections'')
            }
            else State_Monad.return (Redirect ''/rejections'')))"

definition handleDelete :: "env \<Rightarrow> web_request \<Rightarrow> (world, web_response) state" where
  "handleDelete E r =
     (case rq_form r of
        Inl err \<Rightarrow> State_Monad.return (HTTPError 400 err)
      | Inr f \<Rightarrow>
          if form_get f ''all'' \<noteq> [] then do {
            x \<leftarrow> DeleteAllMessages E;
            State_Monad.return (case x of Inl err \<Rightarrow> HTTPError 500 err | Inr _ \<Rightarrow> Redirect ''/'')
          }
          else if f ''id'' \<noteq> [] then do {
            x \<leftarrow> DeleteMessages E (f ''id'');
            State_Monad.return (case x of Inl err \<Rightarrow> HTTPError 500 err | Inr _ \<Rightarrow> Redirect ''/'')
          }
          else State_Monad.return (Redirect ''/''))"

definition handleList :: "env \<Rightarrow> web_request \<Rightarrow> (world, web_response) state" where
  "handleList E r = do {
     x \<leftarrow> RecentMessages E (queryInt r ''n'' 200);
     State_Monad.return (case x of Inl err \<Rightarrow> HTTPError 500 err | Inr msgs \<Rightarrow> Render (ListPage msgs))
   }"

definition handleMessage :: "env \<Rightarrow> string \<Rightarrow> (world, web_response) state" where
  "handleMessage E i = do {
     x \<leftarrow> GetMessage E i;
     State_Monad.return
       (case x of
          Inl err \<Rightarrow> HTTPError 500 err
        | Inr None \<Rightarrow> NotFound
        | Inr (Some m) \<Rightarrow>
            Render (DetailPage m (Parse (env_read E) (su_From m) (splitRcpt (su_Rcpt m)) (su_Raw m))))
   }"

definition handleRaw :: "env \<Rightarrow> string \<Rightarrow> (world, web_response) state" where
  "handleRaw E i = do {
     x \<leftarrow> GetMessage E i;
     State_Monad.return
       (case x of
          Inl err \<Rightarrow> HTTPError 500 err
        | Inr None \<Rightarrow> NotFound
        | Inr (Some m) \<Rightarrow> PlainText (su_Raw m))
   }"

definition handleRejections :: "env \<Rightarrow> web_request \<Rightarrow> (world, web_response) state" where
  "handleRejections E r = do {
     x \<leftarrow> RecentRejections E (queryInt r ''n'' 200);
     State_Monad.return (case x of Inl err \<Rightarrow> HTTPError 500 err | Inr rows \<Rightarrow> Render (RejectionsPage rows))
   }"

text \<open>The patterns of \<^verbatim>\<open>Handler\<close>: a \<^verbatim>\<open>GET\<close> pattern also takes \<^verbatim>\<open>HEAD\<close>, the most specific pattern wins,
  \<^verbatim>\<open>GET /\<close> takes every other path, and a path whose patterns have other methods is refused.\<close>

definition dispatch :: "env \<Rightarrow> web_request \<Rightarrow> (world, web_response) state" where
  "dispatch E r =
     (if rq_method r \<in> {''GET'', ''HEAD''} then
        (case rq_segments r of
           [a, i] \<Rightarrow> if a = ''message'' \<and> i \<noteq> [] then handleMessage E i else handleList E r
         | [a, i, c] \<Rightarrow>
             if a = ''message'' \<and> i \<noteq> [] \<and> c = ''raw'' then handleRaw E i else handleList E r
         | [a] \<Rightarrow> if a = ''rejections'' then handleRejections E r else handleList E r
         | _ \<Rightarrow> handleList E r)
      else if rq_method r = ''POST'' \<and> rq_segments r = [''delete''] then handleDelete E r
      else if rq_method r = ''POST'' \<and> rq_segments r = [''delete-rejections'']
      then handleDeleteRejections E r
      else State_Monad.return MethodNotAllowed)"

section \<open>Frames\<close>

lemma keeps_db_reads [intro!, simp]:
  "keeps db_of (RecentMessages E n)" "keeps db_of (RecentRejections E n)" "keeps db_of (GetMessage E i)"
  by (simp_all add: keeps_def store_defs after_db_exec sql_recent_messages_def
      sql_recent_rejections_def sql_message_by_id_def)

lemma keeps_http_web [intro!, simp]:
  "keeps http_sent (RecentMessages E n)" "keeps http_sent (RecentRejections E n)"
  "keeps http_sent (GetMessage E i)" "keeps http_sent (DeleteMessages E ids)"
  "keeps http_sent (DeleteAllMessages E)" "keeps http_sent (DeleteRejections E ris)"
  "keeps http_sent (DeleteAllRejections E)" "keeps http_sent (PurgeRejectionsOlderThan E t)"
  by (auto simp: keeps_def store_defs after_db_exec)

lemma keeps_queue_reads [intro!, simp]:
  "keeps queue_part (RecentMessages E n)" "keeps queue_part (RecentRejections E n)"
  "keeps queue_part (GetMessage E i)"
  by (auto intro!: keepsI simp: queue_part_def keepsD)

lemmas handler_defs = handleList_def handleMessage_def handleRaw_def handleRejections_def
  handleDelete_def handleDeleteRejections_def

lemma reads_keep_db:
  "keeps db_of (handleList E r)" "keeps db_of (handleMessage E i)" "keeps db_of (handleRaw E i)"
  "keeps db_of (handleRejections E r)"
  by (auto simp: handler_defs intro!: keeps_bind)

lemma handlers_keep_queue:
  "keeps queue_part (dispatch E r)" "keeps http_sent (dispatch E r)" "preserves_db (dispatch E r)"
  by (auto simp: dispatch_def handler_defs Let_def split: list.splits sum.splits
      intro!: keeps_bind preserves_bind)

section \<open>The recipients column read back\<close>

text \<open>An address the SMTP library can have accepted: it holds no comma and no leading or trailing
  blank.\<close>

definition plain_address :: "string \<Rightarrow> bool" where
  "plain_address a \<longleftrightarrow> CHR '','' \<notin> set a \<and> untrimmable a"

lemma splitRcpt_Join:
  assumes "\<forall>a\<in>set as. plain_address a" "as \<noteq> []"
  shows "splitRcpt (Join as '', '') = as"
proof -
  have "Split_on CHR '','' (Join as (CHR '','' # '' '')) = hd as # map (\<lambda>x. '' '' @ x) (tl as)"
    using assms by (intro Split_on_Join) (auto simp: plain_address_def)
  moreover have "TrimSpace (hd as) = hd as" using assms by (simp add: plain_address_def TrimSpace_id)
  moreover have "map (TrimSpace \<circ> (\<lambda>x. '' '' @ x)) (tl as) = map id (tl as)"
    using assms by (intro map_cong) (auto simp: plain_address_def TrimSpace_leading_space dest: list.set_sel(2))
  ultimately show ?thesis using assms(2) by (simp add: splitRcpt_def)
qed

lemma set_map_filter: "set (List.map_filter f xs) = {y. \<exists>x\<in>set xs. f x = Some y}"
  by (induction xs) (auto simp: List.map_filter_def split: option.splits)

section \<open>Properties\<close>

text \<open>C31: the web interface only views and deletes log entries: no request sends anything or touches
  the delivery queue, so the worker is undisturbed, and every request except a \<^verbatim>\<open>POST\<close> to one of the
  two deletion paths leaves the whole database as it is.\<close>

theorem web_requests_harmless:
  "outside_step w (after (dispatch E r) w)
   \<and> queue (db_of (after (dispatch E r) w)) = queue (db_of w)
   \<and> http_sent (after (dispatch E r) w) = http_sent w
   \<and> (rq_method r \<noteq> ''POST'' \<or> rq_segments r \<notin> {[''delete''], [''delete-rejections'']} \<longrightarrow>
        db_of (after (dispatch E r) w) = db_of w)"
proof (intro conjI impI)
  have http: "http_sent (after (dispatch E r) w) = http_sent w"
    using handlers_keep_queue(2) by (rule keepsD)
  then show "http_sent (after (dispatch E r) w) = http_sent w" .
  show "outside_step w (after (dispatch E r) w)"
    using handlers_keep_queue(1,3) http by (intro outside_frame) auto
  show "queue (db_of (after (dispatch E r) w)) = queue (db_of w)"
    using keepsD [OF handlers_keep_queue(1)] by (simp add: queue_part_def)
  assume "rq_method r \<noteq> ''POST'' \<or> rq_segments r \<notin> {[''delete''], [''delete-rejections'']}"
  then have "dispatch E r \<in> {handleList E r, handleRejections E r, State_Monad.return MethodNotAllowed}
      \<or> (\<exists>i. dispatch E r \<in> {handleMessage E i, handleRaw E i})"
    by (auto simp: dispatch_def split: list.splits)
  then show "db_of (after (dispatch E r) w) = db_of w"
    using reads_keep_db by (auto simp: keepsD)
qed

theorem web_requests_harmless_witness:
  "db_of (after (dispatch run_env \<lparr>rq_method = ''GET'', rq_segments = [''delete''], rq_query = (\<lambda>_. []),
     rq_form = Inr (\<lambda>_. [''1''])\<rparr>) one_job_world) = db_of one_job_world"
  using web_requests_harmless [of one_job_world run_env "\<lparr>rq_method = ''GET'', rq_segments = [''delete''],
      rq_query = (\<lambda>_. []), rq_form = Inr (\<lambda>_. [''1''])\<rparr>"] by simp

text \<open>C30: a deletion removes exactly what was selected. On a working database, deleting messages
  removes the listed ones with their delivery entries, or all of them, and leaves the rejections; and
  deleting rejections removes those whose id is the number some selected value spells, ignoring values
  that are not numbers, or all, and leaves messages and deliveries. Then the client is sent back to
  the list.\<close>

theorem web_deletions:
  assumes "db_reliable E" "rq_form r = Inr f"
  shows "result (handleDelete E r) w = Redirect ''/''
    \<and> messages (db_of (after (handleDelete E r) w)) =
        filter (\<lambda>m. form_get f ''all'' = [] \<and> ms_id m \<notin> set (f ''id'')) (messages (db_of w))
    \<and> deliveries (db_of (after (handleDelete E r) w)) =
        filter (\<lambda>d. form_get f ''all'' = [] \<and> dv_message_id d \<notin> set (f ''id'')) (deliveries (db_of w))
    \<and> rejections (db_of (after (handleDelete E r) w)) = rejections (db_of w)
    \<and> result (handleDeleteRejections E r) w = Redirect ''/rejections''
    \<and> rejections (db_of (after (handleDeleteRejections E r) w)) =
        filter (\<lambda>x. form_get f ''all'' = [] \<and> (\<forall>v\<in>set (f ''id''). ParseInt v \<noteq> Some (rj_id x)))
          (rejections (db_of w))
    \<and> messages (db_of (after (handleDeleteRejections E r) w)) = messages (db_of w)
    \<and> deliveries (db_of (after (handleDeleteRejections E r) w)) = deliveries (db_of w)"
proof -
  have env: "env_db_error E n = None" for n using assms(1) by (simp add: db_reliable_def)
  have ids: "rj_id x \<notin> set (List.map_filter ParseInt vs) \<longleftrightarrow> (\<forall>v\<in>set vs. ParseInt v \<noteq> Some (rj_id x))"
    for x :: rejection_row and vs
    by (auto simp: set_map_filter)
  have none: "List.map_filter ParseInt vs = [] \<Longrightarrow> v \<in> set vs \<Longrightarrow> ParseInt v \<noteq> Some n" for vs v n
    using set_map_filter [of ParseInt vs] by auto
  note defs = store_defs sql_defs result_db_exec after_db_exec env count_or_error_def
  have "filter (\<lambda>x. \<forall>v\<in>set vs. ParseInt v \<noteq> Some (rj_id x)) xs = xs"
    if "List.map_filter ParseInt vs = []" for vs and xs :: "rejection_row list"
    using none [OF that] by (intro filter_True) auto
  with assms show ?thesis
    by (simp add: handleDelete_def handleDeleteRejections_def Let_def defs ids)
qed

theorem web_deletions_witness:
  "messages (db_of (after (handleDelete (env_answering (Responded 200))
      \<lparr>rq_method = ''POST'', rq_segments = [''delete''], rq_query = (\<lambda>_. []),
        rq_form = Inr (\<lambda>k. if k = ''id'' then [''m1''] else [])\<rparr>)
      (initial_world\<lparr>db_of := one_message_db\<rparr>))) = []"
  using web_deletions [of "env_answering (Responded 200)" "\<lparr>rq_method = ''POST'',
      rq_segments = [''delete''], rq_query = (\<lambda>_. []),
      rq_form = Inr (\<lambda>k. if k = ''id'' then [''m1''] else [])\<rparr>"
      "\<lambda>k. if k = ''id'' then [''m1''] else []" "initial_world\<lparr>db_of := one_message_db\<rparr>"]
  by (simp add: form_get_def one_message_db_def sql_replace_message_def empty_db_def
      message_row_of_def example_log_def)

text \<open>C29: the detail page shows the message that was delivered. On a working database with content
  logging on, the page of a message just logged parses the same envelope and bytes the delivery
  parsed, as long as no recipient holds a comma or an outer blank, and the raw view returns the bytes
  received.\<close>

theorem detail_shows_delivered:
  assumes "db_reliable E" "st_logContent st" "lg_Rcpt m \<noteq> []" "\<forall>a\<in>set (lg_Rcpt m). plain_address a"
  shows "\<exists>d. result (handleMessage E (lg_ID m)) (after (LogMessage E st m) w) =
      Render (DetailPage d (Parse (env_read E) (lg_From m) (lg_Rcpt m) (lg_Raw m)))
    \<and> su_ID d = lg_ID m \<and> su_Subject d = lg_Subject m
    \<and> result (handleRaw E (lg_ID m)) (after (LogMessage E st m) w) = PlainText (lg_Raw m)"
proof -
  have env: "env_db_error E n = None" for n using assms(1) by (simp add: db_reliable_def)
  let ?w = "after (LogMessage E st m) w" and ?r = "message_row_of m"
  have "find (\<lambda>r. ms_id r = lg_ID m) (filter (\<lambda>x. ms_id x \<noteq> lg_ID m) xs) = None"
    for xs :: "message_row list" by (simp add: find_None_iff)
  then have get: "result (GetMessage E (lg_ID m)) ?w = Inr (Some (stored_of ?r))"
    using assms(1,2)
    by (simp add: store_defs sql_defs result_db_exec after_db_exec env find_append message_row_of_def)
  have fields: "su_From (stored_of ?r) = lg_From m" "su_Rcpt (stored_of ?r) = Join (lg_Rcpt m) '', ''"
    "su_Raw (stored_of ?r) = lg_Raw m" "su_ID (stored_of ?r) = lg_ID m"
    "su_Subject (stored_of ?r) = lg_Subject m"
    by (simp_all add: stored_of_def message_row_of_def)
  show ?thesis
    by (intro exI [of _ "stored_of ?r"])
      (simp add: handleMessage_def handleRaw_def get fields splitRcpt_Join [OF assms(4,3)])
qed

theorem detail_shows_delivered_witness:
  "result (handleRaw (env_answering (Responded 200)) ''m1'') (after (LogMessage (env_answering (Responded 200))
      \<lparr>st_logContent = True, st_logRejections = True\<rparr> example_log) initial_world) = PlainText ''raw''"
proof -
  have "list_all (\<lambda>a. CHR '','' \<notin> set a \<and> untrimmable a) [''x@y'', ''z@y'']"
    unfolding untrimmable_def by code_simp
  then have "\<forall>a\<in>set (lg_Rcpt example_log). plain_address a"
    by (simp add: plain_address_def example_log_def)
  from detail_shows_delivered [OF _ _ _ this, of "env_answering (Responded 200)"
      "\<lparr>st_logContent = True, st_logRejections = True\<rparr>" initial_world]
  show ?thesis by (auto simp: example_log_def)
qed

end
