(* ===== verification/Commands.thy ===== *)
theory Commands
  imports Listeners Web
begin

text \<open>
  \<^verbatim>\<open>cmd/smtp-bridge/main.go\<close>: the choice of the subcommand, the start of the server, the purge of old
  rejections, and the three subcommands that print.

  A command is a function of what its surroundings answer: the parsed flags, the loaded configuration,
  the opened database. Its output is the lines it prints and its exit code. The text of a time is
  \<open>fmt_time\<close>, since it depends on the local time zone. Lines written to the log are left out.
\<close>

section \<open>Subcommands\<close>

datatype subcommand =
    RejectionsCmd "string list"
  | MessagesCmd "string list"
  | HashCmd "string list"
  | ServerCmd "string list"

definition subcommand_of :: "string list \<Rightarrow> subcommand" where
  "subcommand_of args =
     (case args of
        prog # cmd # rest \<Rightarrow>
          if cmd = ''rejections'' then RejectionsCmd rest
          else if cmd = ''messages'' then MessagesCmd rest
          else if cmd = ''hash'' then HashCmd rest
          else ServerCmd (cmd # rest)
      | _ \<Rightarrow> ServerCmd [])"

record cmd_output =
  ou_stdout :: "string list"
  ou_stderr :: "string list"
  ou_exit :: int

definition printed :: "string list \<Rightarrow> cmd_output" where
  "printed ls = \<lparr>ou_stdout = ls, ou_stderr = [], ou_exit = 0\<rparr>"

definition exit_error :: "string \<Rightarrow> cmd_output" where
  "exit_error msg = \<lparr>ou_stdout = [], ou_stderr = [msg], ou_exit = 1\<rparr>"

section \<open>Hashing a password\<close>

definition trim_newlines :: "string \<Rightarrow> string" where
  "trim_newlines s = rev (dropWhile (\<lambda>c. byte c = 13 \<or> byte c = 10) (rev s))"

definition hash_usage :: string where
  "hash_usage = ''usage: smtp-bridge hash <password>   (or pipe the password on stdin)''"

definition runHash :: "(string \<Rightarrow> string + string) \<Rightarrow> string \<Rightarrow> string list \<Rightarrow> cmd_output" where
  "runHash generate stdin argv =
     (let pw = (if argv \<noteq> [] \<and> hd argv \<noteq> [] then hd argv else trim_newlines stdin) in
      if pw = [] then exit_error hash_usage
      else (case generate pw of
              Inl err \<Rightarrow> exit_error (''hash error: '' @ err)
            | Inr h \<Rightarrow> printed [h]))"

section \<open>Listings\<close>

text \<open>\<^verbatim>\<open>%-5s\<close>: the width counts runes.\<close>

definition pad5 :: "string \<Rightarrow> string" where
  "pad5 s = s @ replicate (5 - length (runes s)) CHR '' ''"

definition rejection_line :: "env \<Rightarrow> (int \<Rightarrow> string) \<Rightarrow> rejection \<Rightarrow> string" where
  "rejection_line E fmt_time r =
     fmt_time (re_At r) @ ''  port='' @ Itoa (re_Port r) @ '' stage='' @ pad5 (re_Stage r)
     @ '' code='' @ Itoa (re_Code r) @ ''  ip='' @ re_RemoteAddr r
     @ '' user='' @ env_quote E (re_Username r) @ '' from='' @ env_quote E (re_From r)
     @ '' rcpt='' @ env_quote E (re_Rcpt r) @ ''  reason='' @ env_quote E (re_Reason r)"

definition message_line :: "env \<Rightarrow> (int \<Rightarrow> string) \<Rightarrow> message_summary \<Rightarrow> string" where
  "message_line E fmt_time m =
     fmt_time (su_ReceivedAt m) @ ''  port='' @ Itoa (su_Port m)
     @ '' user='' @ env_quote E (su_Username m) @ '' route='' @ env_quote E (su_Route m)
     @ '' from='' @ env_quote E (su_From m) @ '' rcpt='' @ env_quote E (su_Rcpt m)
     @ '' size='' @ Itoa (su_Size m) @ ''  subject='' @ env_quote E (su_Subject m)"

text \<open>The configuration and the store of a listing, or the message it exits with. \<open>show_error\<close> is the
  text of a configuration error.\<close>

definition open_for_listing ::
  "(load_error \<Rightarrow> string) \<Rightarrow> (string \<Rightarrow> load_error + config) \<Rightarrow> (string \<Rightarrow> string + db) \<Rightarrow> string
    \<Rightarrow> string + db" where
  "open_for_listing show_error load open_db configPath =
     (case load configPath of
        Inl err \<Rightarrow> Inl (''config error: '' @ show_error err)
      | Inr cfg \<Rightarrow>
          (case Open open_db (lg_database (cf_logging cfg)) (lg_enabled (cf_logging cfg))
                  (LogRejections (cf_logging cfg)) of
             Inl err \<Rightarrow> Inl (''store error: '' @ err)
           | Inr (st, d) \<Rightarrow> Inr d))"

text \<open>The flags are the path of the configuration and the number of rows. The command is its own
  process, so its world starts from the opened database.\<close>

definition runRejections ::
  "env \<Rightarrow> (int \<Rightarrow> string) \<Rightarrow> (load_error \<Rightarrow> string) \<Rightarrow> (string \<Rightarrow> load_error + config)
    \<Rightarrow> (string \<Rightarrow> string + db) \<Rightarrow> string \<Rightarrow> int \<Rightarrow> cmd_output" where
  "runRejections E fmt_time show_error load open_db configPath n =
     (case open_for_listing show_error load open_db configPath of
        Inl msg \<Rightarrow> exit_error msg
      | Inr d \<Rightarrow>
          (case result (RecentRejections E n) (initial_world\<lparr>db_of := d\<rparr>) of
             Inl err \<Rightarrow> exit_error (''query error: '' @ err)
           | Inr rows \<Rightarrow>
               if rows = [] then printed [''no rejections recorded'']
               else printed (map (rejection_line E fmt_time) (rev rows))))"

definition runMessages ::
  "env \<Rightarrow> (int \<Rightarrow> string) \<Rightarrow> (load_error \<Rightarrow> string) \<Rightarrow> (string \<Rightarrow> load_error + config)
    \<Rightarrow> (string \<Rightarrow> string + db) \<Rightarrow> string \<Rightarrow> int \<Rightarrow> cmd_output" where
  "runMessages E fmt_time show_error load open_db configPath n =
     (case open_for_listing show_error load open_db configPath of
        Inl msg \<Rightarrow> exit_error msg
      | Inr d \<Rightarrow>
          (case result (RecentMessages E n) (initial_world\<lparr>db_of := d\<rparr>) of
             Inl err \<Rightarrow> exit_error (''query error: '' @ err)
           | Inr rows \<Rightarrow>
               if rows = [] then printed [''no messages logged (is logging.enabled true?)'']
               else printed (map (message_line E fmt_time) (rev rows))))"

section \<open>Purging old rejections\<close>

definition purge :: "env \<Rightarrow> int \<Rightarrow> (world, string + int) state" where
  "purge E days = do {
     now \<leftarrow> time_Now E;
     PurgeRejectionsOlderThan E (env_add_days E now (- days))
   }"

text \<open>What the ticker and the context deliver to the loop, in order.\<close>

datatype purge_event = Tick | Cancelled

fun purge_loop :: "env \<Rightarrow> int \<Rightarrow> purge_event list \<Rightarrow> (world, unit) state" where
  "purge_loop E days [] = State_Monad.return ()"
| "purge_loop E days (Cancelled # _) = State_Monad.return ()"
| "purge_loop E days (Tick # evs) = do { _ \<leftarrow> purge E days; purge_loop E days evs }"

definition runRejectionPurge :: "env \<Rightarrow> int \<Rightarrow> purge_event list \<Rightarrow> (world, unit) state" where
  "runRejectionPurge E days evs = do { _ \<leftarrow> purge E days; purge_loop E days evs }"

section \<open>The server\<close>

definition route_map :: "route list \<Rightarrow> string \<Rightarrow> route option" where
  "route_map rs = fold (\<lambda>r m. m(rt_name r \<mapsto> r)) rs Map.empty"

datatype startup_error =
    ConfigError load_error
  | StoreError string
  | TLSError string
  | ServerError
  | ListenError string

text \<open>The running program: its configuration, the deliverer of the worker, the server, the days the
  purge keeps rejections for if it runs, the address of the web interface if it is on, and the
  database it started from.\<close>

record 'c bridge =
  br_cfg :: config
  br_deliverer :: deliverer
  br_server :: "'c server"
  br_purge_days :: "int option"
  br_web :: "string option"
  br_db :: db

datatype 'c outcome = Checked string | Failed startup_error | Up "'c bridge"

definition checked_line :: "(string \<Rightarrow> string) \<Rightarrow> config \<Rightarrow> string" where
  "checked_line quote cfg =
     ''config OK: '' @ Itoa (int (length (cf_listeners cfg))) @ '' listener(s), ''
     @ Itoa (int (length (cf_routes cfg))) @ '' route(s), cert mode '' @ quote (tl_mode (cf_tls cfg))"

definition runServer ::
  "(string \<Rightarrow> string) \<Rightarrow> (string \<Rightarrow> load_error + config) \<Rightarrow> (string \<Rightarrow> string + db)
    \<Rightarrow> (tls \<Rightarrow> string + 'c tls_config option) \<Rightarrow> (nat \<Rightarrow> string \<Rightarrow> string + string)
    \<Rightarrow> string \<Rightarrow> bool \<Rightarrow> 'c outcome" where
  "runServer quote load open_db build listen configPath check =
     (case load configPath of
        Inl err \<Rightarrow> Failed (ConfigError err)
      | Inr cfg \<Rightarrow>
          if check then Checked (checked_line quote cfg)
          else
            (case Open open_db (lg_database (cf_logging cfg)) (lg_enabled (cf_logging cfg))
                    (LogRejections (cf_logging cfg)) of
               Inl err \<Rightarrow> Failed (StoreError err)
             | Inr (st, db0) \<Rightarrow>
                 let d = \<lparr>dv_cfg = cf_delivery cfg, dv_routes = route_map (cf_routes cfg), dv_store = st\<rparr>;
                     days = lg_rejection_retention_days (cf_logging cfg)
                 in (case build (cf_tls cfg) of
                       Inl err \<Rightarrow> Failed (TLSError err)
                     | Inr tlsConfig \<Rightarrow>
                         (case new_server cfg d st tlsConfig of
                            None \<Rightarrow> Failed ServerError
                          | Some srv \<Rightarrow>
                              (case Serve listen srv of
                                 (Some err, _) \<Rightarrow> Failed (ListenError err)
                               | (None, srv') \<Rightarrow>
                                   Up \<lparr>br_cfg = cfg, br_deliverer = d, br_server = srv',
                                       br_purge_days = (if days > 0 then Some days else None),
                                       br_web = (if web_Enabled (cf_web cfg)
                                                 then Some (wb_listen (cf_web cfg)) else None),
                                       br_db = db0\<rparr>)))))"

definition shutdown :: "'c bridge \<Rightarrow> 'c bridge" where
  "shutdown br = br\<lparr>br_server := Close (br_server br), br_web := None\<rparr>"

section \<open>Lemmas\<close>

lemma result_Recent:
  "next_stmt_ok E w \<Longrightarrow>
     result (RecentRejections E n) w = Inr (map rejection_of (fst (sql_recent_rejections n (db_of w))))"
  "next_stmt_ok E w \<Longrightarrow>
     result (RecentMessages E n) w = Inr (map summary_of (fst (sql_recent_messages n (db_of w))))"
  by (simp_all add: RecentRejections_def RecentMessages_def result_db_exec next_stmt_ok_def)

text \<open>One purge: what it removes, and what it leaves alone.\<close>

definition cutoff :: "env \<Rightarrow> int \<Rightarrow> nat \<Rightarrow> int" where
  "cutoff E days k = UnixMilli (env_add_days E (env_now E k) (- days))"

lemma purge_rejections:
  "db_reliable E \<Longrightarrow> rejections (db_of (after (purge E days) w)) =
     filter (\<lambda>r. cutoff E days (n_now w) \<le> rj_at r) (rejections (db_of w))"
  "n_now (after (purge E days) w) = Suc (n_now w)"
  by (auto simp: purge_def PurgeRejectionsOlderThan_def after_db_exec run_simps sql_purge_rejections_def
      cutoff_def not_less intro!: filter_cong)

lemma purge_frames [intro!, simp]:
  "keeps queue_part (purge E days)" "keeps message_part (purge E days)" "keeps http_sent (purge E days)"
  "preserves_db (purge E days)"
  by (auto simp: purge_def queue_part_def message_part_def intro!: keeps_bind preserves_bind)

fun ticks :: "purge_event list \<Rightarrow> nat" where
  "ticks [] = 0"
| "ticks (Cancelled # _) = 0"
| "ticks (Tick # evs) = Suc (ticks evs)"

lemma purge_loop_frames [intro!, simp]:
  "keeps queue_part (purge_loop E days evs)" "keeps message_part (purge_loop E days evs)"
  "keeps http_sent (purge_loop E days evs)" "preserves_db (purge_loop E days evs)"
  by (induction evs rule: ticks.induct) (auto intro!: keeps_bind preserves_bind)

lemma purge_loop_rejections:
  "db_reliable E \<Longrightarrow> rejections (db_of (after (purge_loop E days evs) w)) =
     filter (\<lambda>r. \<forall>k<ticks evs. cutoff E days (n_now w + k) \<le> rj_at r) (rejections (db_of w))"
proof (induction evs arbitrary: w rule: ticks.induct)
  case (3 evs)
  have "(\<forall>k<Suc n. P k) \<longleftrightarrow> P 0 \<and> (\<forall>k<n. P (Suc k))" for n and P :: "nat \<Rightarrow> bool"
    using less_Suc_eq_0_disj by auto
  with 3 show ?case by (simp add: purge_rejections conj_commute)
qed simp_all

lemma route_map_distinct:
  "distinct (map rt_name rs) \<Longrightarrow> rt \<in> set rs \<Longrightarrow> route_map rs (rt_name rt) = Some rt"
proof -
  have other: "fold (\<lambda>r m. m(rt_name r \<mapsto> r)) rs m n = m n" if "n \<notin> rt_name ` set rs" for rs m n
    using that by (induction rs arbitrary: m) auto
  have "distinct (map rt_name rs) \<Longrightarrow> rt \<in> set rs \<Longrightarrow>
      fold (\<lambda>r m. m(rt_name r \<mapsto> r)) rs m (rt_name rt) = Some rt" for m
    by (induction rs arbitrary: m) (auto simp: other)
  then show "distinct (map rt_name rs) \<Longrightarrow> rt \<in> set rs \<Longrightarrow> route_map rs (rt_name rt) = Some rt"
    by (simp add: route_map_def)
qed

text \<open>A server that came up.\<close>

lemma runServer_Up:
  assumes "runServer quote load open_db build listen path check = Up br"
  obtains st tls srv where "load path = Inr (br_cfg br)" "\<not> check"
    and "open_db (lg_database (cf_logging (br_cfg br))) = Inr (br_db br)"
    and "st = \<lparr>st_logContent = lg_enabled (cf_logging (br_cfg br)),
               st_logRejections = LogRejections (cf_logging (br_cfg br))\<rparr>"
    and "br_deliverer br = \<lparr>dv_cfg = cf_delivery (br_cfg br),
               dv_routes = route_map (cf_routes (br_cfg br)), dv_store = st\<rparr>"
    and "build (cf_tls (br_cfg br)) = Inr tls" "new_server (br_cfg br) (br_deliverer br) st tls = Some srv"
    and "Serve listen srv = (None, br_server br)"
  using assms
  by (auto simp: runServer_def Open_def Let_def split: sum.splits if_splits option.splits prod.splits)

lemma serve_keeps_backend: "sv_be (snd (serve_listeners listen sv ls)) = sv_be sv"
  by (induction ls arbitrary: sv) (auto simp: Close_def split: sum.splits)

lemma new_server_backend:
  "new_server cfg d st tls = Some sv \<Longrightarrow> new_backend cfg d st = Some (sv_be sv)"
  by (auto simp: new_server_def)

text \<open>What the parts of a running bridge agree on.\<close>

definition consistent :: "'c bridge \<Rightarrow> bool" where
  "consistent br \<longleftrightarrow>
     (let cfg = br_cfg br; d = br_deliverer br; b = sv_be (br_server br) in
      bk_cfg b = cfg \<and> bk_routes b = cf_routes cfg \<and> bk_deliverer b = d \<and> bk_store b = dv_store d
      \<and> dv_cfg d = cf_delivery cfg
      \<and> (\<forall>rt\<in>set (cf_routes cfg). rt_username rt \<noteq> [] \<and> dv_routes d (rt_name rt) = Some rt
           \<and> (\<not> HasWebhook rt \<longrightarrow> st_logContent (bk_store b))))"

lemma Up_consistent:
  assumes "runServer quote (Load read_file decode getenv) open_db build listen path check = Up br"
  shows "consistent br \<and> valid_config getenv (br_cfg br)"
proof -
  from assms obtain st tls srv where up: "Load read_file decode getenv path = Inr (br_cfg br)"
    "st = \<lparr>st_logContent = lg_enabled (cf_logging (br_cfg br)),
           st_logRejections = LogRejections (cf_logging (br_cfg br))\<rparr>"
    "br_deliverer br = \<lparr>dv_cfg = cf_delivery (br_cfg br),
       dv_routes = route_map (cf_routes (br_cfg br)), dv_store = st\<rparr>"
    "new_server (br_cfg br) (br_deliverer br) st tls = Some srv"
    "Serve listen srv = (None, br_server br)"
    by (rule runServer_Up)
  have valid: "valid_config getenv (br_cfg br)" using Load_valid [OF up(1)] by blast
  have be: "sv_be (br_server br) = sv_be srv"
    using serve_keeps_backend [of listen srv "cf_listeners (bk_cfg (sv_be srv))"] up(5)
    by (simp add: Serve_def)
  note b = new_backend_Some [OF new_server_backend [OF up(4)]]
  have "rt_username rt \<noteq> [] \<and> route_map (cf_routes (br_cfg br)) (rt_name rt) = Some rt
      \<and> (\<not> HasWebhook rt \<longrightarrow> lg_enabled (cf_logging (br_cfg br)))"
    if "rt \<in> set (cf_routes (br_cfg br))" for rt
    using valid that route_map_distinct by (auto simp: valid_config_def routes_ok_def route_ok_def)
  with valid b be show ?thesis by (simp add: consistent_def Let_def up(2,3))
qed

lemma serve_listeners_fails:
  "serve_listeners listen sv ls = (Some e, sv') \<Longrightarrow> \<exists>l\<in>set ls. \<exists>n. isl (listen n (ls_address l))"
proof (induction ls arbitrary: sv)
  case (Cons l ls)
  show ?case
  proof (cases "listen (length (sv_lns sv)) (ls_address l)")
    case (Inl err)
    then have "isl (listen (length (sv_lns sv)) (ls_address l))" by simp
    then show ?thesis by auto
  next
    case (Inr bound)
    with Cons show ?thesis by fastforce
  qed
qed simp

lemma new_server_valid: "valid_config getenv cfg \<Longrightarrow> new_server cfg d st tls \<noteq> None"
  by (auto simp: new_server_def new_backend_def valid_config_def parse_nets_None)

section \<open>Properties\<close>

text \<open>C33: the two listing subcommands print, one line each, the newest rows, all of them for a
  negative number and otherwise at most as many as asked for, the oldest first: with the rows left out in
  front, the printed rows are the whole table, each row as often as it is in it, in the order of their
  times. When there is no row to print, they say so.\<close>

theorem listings_oldest_first:
  assumes "db_reliable E" "open_for_listing show_error load open_db path = Inr d"
  shows "(\<exists>older rows. runRejections E fmt_time show_error load open_db path n =
        printed (if rows = [] then [''no rejections recorded'']
                 else map (rejection_line E fmt_time \<circ> rejection_of) rows)
      \<and> mset (older @ rows) = mset (rejections d) \<and> sorted (map rj_at (older @ rows))
      \<and> length rows = (if n < 0 then length (rejections d) else min (length (rejections d)) (nat n)))
    \<and> (\<exists>older rows. runMessages E fmt_time show_error load open_db path n =
        printed (if rows = [] then [''no messages logged (is logging.enabled true?)'']
                 else map (message_line E fmt_time \<circ> summary_of) rows)
      \<and> mset (older @ rows) = mset (messages d) \<and> sorted (map ms_received_at (older @ rows))
      \<and> length rows = (if n < 0 then length (messages d) else min (length (messages d)) (nat n)))"
proof (intro conjI)
  let ?w = "initial_world\<lparr>db_of := d\<rparr>"
  have ok: "next_stmt_ok E ?w" using assms(1) by simp
  let ?rj = "rev (fst (sql_recent_rejections n d))" and ?ms = "rev (fst (sql_recent_messages n d))"
  from rn.listing_tail [where lim = n and d = d] obtain older where
    "mset (older @ ?rj) = mset (rejections d) \<and> sorted (map rj_at (older @ ?rj))" by blast
  then show "\<exists>older rows. runRejections E fmt_time show_error load open_db path n =
        printed (if rows = [] then [''no rejections recorded'']
                 else map (rejection_line E fmt_time \<circ> rejection_of) rows)
      \<and> mset (older @ rows) = mset (rejections d) \<and> sorted (map rj_at (older @ rows))
      \<and> length rows = (if n < 0 then length (rejections d) else min (length (rejections d)) (nat n))"
    using rn.listing_length [of n d]
    by (intro exI [of _ older] exI [of _ ?rj])
      (simp add: runRejections_def assms(2) result_Recent(1) [OF ok] rev_map)
  from mn.listing_tail [where lim = n and d = d] obtain older where
    "mset (older @ ?ms) = mset (messages d) \<and> sorted (map ms_received_at (older @ ?ms))" by blast
  then show "\<exists>older rows. runMessages E fmt_time show_error load open_db path n =
        printed (if rows = [] then [''no messages logged (is logging.enabled true?)'']
                 else map (message_line E fmt_time \<circ> summary_of) rows)
      \<and> mset (older @ rows) = mset (messages d) \<and> sorted (map ms_received_at (older @ rows))
      \<and> length rows = (if n < 0 then length (messages d) else min (length (messages d)) (nat n))"
    using mn.listing_length [of n d]
    by (intro exI [of _ older] exI [of _ ?ms])
      (simp add: runMessages_def assms(2) result_Recent(2) [OF ok] rev_map)
qed

theorem listings_oldest_first_witness:
  "runMessages (env_answering (Responded 200)) (\<lambda>_. ''now'') (\<lambda>_. []) (\<lambda>_. Inr listening_config)
     (\<lambda>_. Inr one_message_db) ''config.yaml'' 50
   = printed [message_line (env_answering (Responded 200)) (\<lambda>_. ''now'') (summary_of (message_row_of example_log))]"
proof -
  have o: "open_for_listing (\<lambda>_. []) (\<lambda>_. Inr listening_config) (\<lambda>_. Inr one_message_db) ''config.yaml'' = Inr one_message_db"
    by (simp add: open_for_listing_def Open_def)
  have d: "messages one_message_db = [message_row_of example_log]"
    by (simp add: one_message_db_def sql_replace_message_def empty_db_def)
  from listings_oldest_first [OF db_reliable_answering o, of "Responded 200" "\<lambda>_. ''now''" 50] obtain older rows
    where r: "runMessages (env_answering (Responded 200)) (\<lambda>_. ''now'') (\<lambda>_. []) (\<lambda>_. Inr listening_config)
        (\<lambda>_. Inr one_message_db) ''config.yaml'' 50 =
      printed (if rows = [] then [''no messages logged (is logging.enabled true?)'']
               else map (message_line (env_answering (Responded 200)) (\<lambda>_. ''now'') \<circ> summary_of) rows)"
      "mset (older @ rows) = mset (messages one_message_db)" "length rows = 1"
    by (auto simp: d)
  from r(2,3) have "rows = [message_row_of example_log]"
    by (cases rows) (auto simp: d)
  with r(1) show ?thesis by simp
qed

text \<open>C32: the purge keeps the promise of the retention period. On a working database, after a start
  and some ticks before the cancellation, a rejection is gone exactly if one of the purges that ran
  found it older than its cutoff, the configured number of days before that moment; messages, jobs
  and requests sent are untouched, and the worker is undisturbed whether or not statements fail.\<close>

theorem purge_removes_expired:
  fixes E :: env and days :: int and evs :: "purge_event list" and w :: world
  assumes "db_reliable E"
  defines "w' \<equiv> after (runRejectionPurge E days evs) w"
  shows "rejections (db_of w') = filter (\<lambda>r. \<forall>k\<le>ticks evs.
        UnixMilli (env_add_days E (env_now E (n_now w + k)) (- days)) \<le> rj_at r) (rejections (db_of w))
    \<and> messages (db_of w') = messages (db_of w) \<and> queue (db_of w') = queue (db_of w)
    \<and> (\<forall>E v. outside_step v (after (runRejectionPurge E days evs) v))"
proof (intro conjI allI)
  have "(\<forall>k\<le>n. P k) \<longleftrightarrow> P 0 \<and> (\<forall>k<n. P (Suc k))" for n and P :: "nat \<Rightarrow> bool"
    using less_Suc_eq_le [of _ n] less_Suc_eq_0_disj [of _ n] by (metis (no_types, lifting))
  then show "rejections (db_of w') = filter (\<lambda>r. \<forall>k\<le>ticks evs.
        UnixMilli (env_add_days E (env_now E (n_now w + k)) (- days)) \<le> rj_at r) (rejections (db_of w))"
    by (simp add: w'_def runRejectionPurge_def purge_loop_rejections [OF assms(1)]
        purge_rejections(1) [OF assms(1)] purge_rejections(2) cutoff_def conj_commute)
  have frames: "keeps queue_part (runRejectionPurge E days evs)"
    "keeps message_part (runRejectionPurge E days evs)" "keeps http_sent (runRejectionPurge E days evs)"
    "preserves_db (runRejectionPurge E days evs)" for E
    by (auto simp: runRejectionPurge_def intro!: keeps_bind preserves_bind)
  show "messages (db_of w') = messages (db_of w)" "queue (db_of w') = queue (db_of w)"
    using keepsD [OF frames(1), where s = w] keepsD [OF frames(2), where s = w]
    by (simp_all add: w'_def queue_part_def message_part_def)
  show "outside_step v (after (runRejectionPurge E days evs) v)" for E v
    using frames by (intro outside_frame) (simp_all add: keepsD)
qed

theorem purge_removes_expired_witness:
  "rejections (db_of (after (runRejectionPurge (env_answering (Responded 200)) 30 [Tick, Cancelled, Tick])
     initial_world)) = []"
  using purge_removes_expired [OF db_reliable_answering, of "Responded 200" 30 "[Tick, Cancelled, Tick]"
      initial_world]
  by (simp add: initial_world_def empty_db_def)

text \<open>C9: the program comes up consistent: when \<open>runServer\<close> starts a server, the configuration is
  valid, the session's router and the worker's deliverer work on the same routes and the same store,
  a name the router yields resolves in the deliverer to the very route it matched, so no accepted
  job is dropped as unknown, and mail for a route with no webhook is kept in the log.\<close>

theorem startup_consistent:
  fixes br :: "'c bridge"
  assumes "runServer quote (Load read_file decode getenv) open_db build listen path False = Up br"
  defines "b \<equiv> sv_be (br_server br)" and "d \<equiv> br_deliverer br"
  shows "valid_config getenv (br_cfg br)
    \<and> bk_deliverer b = d \<and> bk_store b = dv_store d \<and> bk_routes b = cf_routes (br_cfg br)
    \<and> (\<forall>F u a rt. Match F (bk_routes b) u a = Some rt \<longrightarrow>
        dv_routes d (rt_name rt) = Some rt \<and> rt_username rt = u \<and> u \<noteq> []
        \<and> EffectiveMode rt (dl_default_mode (dv_cfg d)) \<in> {ModeAsync, ModeSync}
        \<and> (\<not> HasWebhook rt \<longrightarrow> st_logContent (bk_store b)))"
proof -
  from Up_consistent [OF assms(1)] have c: "consistent br" and v: "valid_config getenv (br_cfg br)"
    by blast+
  have mode: "EffectiveMode rt (dl_default_mode (cf_delivery (br_cfg br))) \<in> {ModeAsync, ModeSync}"
    if "rt \<in> set (cf_routes (br_cfg br))" for rt
    using v that by (simp add: valid_config_def routes_ok_def route_ok_def)
  have match: "rt \<in> set rs \<and> rt_username rt = u" if "Match F rs u a = Some rt" for F rs u a rt
    using that by (auto simp: Match_find route_accepts_def dest!: find_Some_in)
  show ?thesis
    using c v mode match unfolding consistent_def Let_def b_def d_def by metis
qed

definition load_example :: "string \<Rightarrow> load_error + config" where
  "load_example = Load (\<lambda>_. Inr []) (\<lambda>_. Inr listening_config) (\<lambda>_. [])"

lemma load_example_OK: "load_example path = Inr listening_config"
proof -
  have "applyDefaults listening_config = listening_config"
    by (simp add: applyDefaults_def listening_config_def files_config_def default_listeners_def
        default_tls_def default_delivery_def default_route_def or_default_def signed_route_def
        mode_defs second_def)
  from Load_normal [OF this listening_config_valid] show ?thesis by (simp add: load_example_def)
qed

definition run_example :: "bool \<Rightarrow> unit outcome" where
  "run_example check = runServer id load_example (\<lambda>_. Inr empty_db) (\<lambda>_. Inr None) (\<lambda>n a. Inr a)
     ''config.yaml'' check"

lemma example_up:
  obtains br where "run_example False = Up br" "br_cfg br = listening_config" "br_db br = empty_db"
proof -
  have ls: "cf_listeners listening_config = [\<lparr>ls_address = '':465'', ls_tls = ''implicit'', ls_insecure_auth = False\<rparr>]"
    by (simp add: listening_config_def files_config_def)
  have serve: "\<exists>sv'. Serve (\<lambda>n a. Inr a) sv = (None, sv')" if "new_server listening_config d st tls = Some sv"
    for d st tls and sv :: "unit server"
    using new_backend_Some [OF new_server_backend [OF that]] by (simp add: Serve_def ls)
  let ?cfg = listening_config
  let ?st = "\<lparr>st_logContent = lg_enabled (cf_logging ?cfg), st_logRejections = LogRejections (cf_logging ?cfg)\<rparr>"
  let ?d = "\<lparr>dv_cfg = cf_delivery ?cfg, dv_routes = route_map (cf_routes ?cfg), dv_store = ?st\<rparr>"
  obtain sv :: "unit server" where sv: "new_server ?cfg ?d ?st None = Some sv"
    using new_server_valid [OF listening_config_valid] by blast
  with serve obtain sv' where sv': "Serve (\<lambda>n a. Inr a) sv = (None, sv')" by blast
  obtain br where br: "run_example False = Up br"
    by (simp add: run_example_def runServer_def load_example_OK Open_def Let_def sv sv')
  from br [unfolded run_example_def] have "load_example ''config.yaml'' = Inr (br_cfg br) \<and> br_db br = empty_db"
    by (auto elim: runServer_Up)
  with br that show ?thesis by (simp add: load_example_OK)
qed

theorem startup_consistent_witness:
  "\<exists>br. run_example False = Up br \<and> dv_routes (br_deliverer br) ''app'' = Some signed_route"
proof -
  obtain br where br: "run_example False = Up br" "br_cfg br = listening_config" by (rule example_up)
  note c = startup_consistent [OF br(1) [unfolded run_example_def load_example_def]]
  from c have "bk_routes (sv_be (br_server br)) = [signed_route]"
    by (simp add: br(2) listening_config_def)
  with alice_match have "Match id (bk_routes (sv_be (br_server br))) ''alice'' ''x@h.example'' = Some signed_route"
    by simp
  then have "dv_routes (br_deliverer br) (rt_name signed_route) = Some signed_route"
    using c by blast
  with br(1) show ?thesis by (simp add: signed_route_def)
qed

text \<open>C11: \<^verbatim>\<open>-check\<close> means what it says: it succeeds exactly for a configuration that loads, without
  touching the database, the certificates or the network, and for such a configuration the server
  comes up unless the database cannot be opened, the certificate cannot be loaded or issued, or a
  listener cannot be bound.\<close>

theorem check_predicts_start:
  fixes open_db :: "string \<Rightarrow> string + db" and listen :: "nat \<Rightarrow> string \<Rightarrow> string + string"
    and load_pair :: "string \<Rightarrow> string \<Rightarrow> string + 'c" and load :: "string \<Rightarrow> load_error + config"
    and manage :: "acme_setup \<Rightarrow> string + string list" and getenv :: "string \<Rightarrow> string"
    and quote :: "string \<Rightarrow> string" and path :: string
  assumes "load = Load read_file decode getenv"
  defines "run \<equiv> runServer quote load open_db (Build getenv quote load_pair manage) listen path"
  shows "(\<forall>e. load path = Inl e \<longrightarrow> run True = Failed (ConfigError e) \<and> run False = Failed (ConfigError e))
    \<and> (\<forall>cfg. load path = Inr cfg \<longrightarrow> run True = Checked (checked_line quote cfg)
      \<and> (case run False of
          Up br \<Rightarrow> br_cfg br = cfg
        | Failed (StoreError e) \<Rightarrow> open_db (lg_database (cf_logging cfg)) = Inl e
        | Failed (TLSError e) \<Rightarrow> build_call_failed load_pair manage (cf_tls cfg)
        | Failed (ListenError e) \<Rightarrow> (\<exists>l\<in>set (cf_listeners cfg). \<exists>n. isl (listen n (ls_address l)))
        | _ \<Rightarrow> False))"
proof (intro conjI allI impI)
  fix cfg
  assume cfg: "load path = Inr cfg"
  then have valid: "valid_config getenv cfg" using assms(1) Load_valid by blast
  then have tls: "tls_ok getenv cfg" by (simp add: valid_config_def)
  show "run True = Checked (checked_line quote cfg)" by (simp add: run_def runServer_def cfg)
  show "case run False of
          Up br \<Rightarrow> br_cfg br = cfg
        | Failed (StoreError e) \<Rightarrow> open_db (lg_database (cf_logging cfg)) = Inl e
        | Failed (TLSError e) \<Rightarrow> build_call_failed load_pair manage (cf_tls cfg)
        | Failed (ListenError e) \<Rightarrow> (\<exists>l\<in>set (cf_listeners cfg). \<exists>n. isl (listen n (ls_address l)))
        | _ \<Rightarrow> False"
  proof (cases "run False")
    case (Checked x)
    then show ?thesis
      by (auto simp: run_def runServer_def cfg Let_def split: sum.splits option.splits prod.splits)
  next
    case (Up br)
    then show ?thesis unfolding run_def by (auto elim!: runServer_Up simp: cfg)
  next
    case (Failed err)
    show ?thesis
    proof (cases "open_db (lg_database (cf_logging cfg))")
      case (Inl e)
      with Failed show ?thesis by (auto simp: run_def runServer_def cfg Open_def)
    next
      case (Inr db0)
      let ?st = "\<lparr>st_logContent = lg_enabled (cf_logging cfg), st_logRejections = LogRejections (cf_logging cfg)\<rparr>"
      let ?d = "\<lparr>dv_cfg = cf_delivery cfg, dv_routes = route_map (cf_routes cfg), dv_store = ?st\<rparr>"
      note start = run_def runServer_def cfg Open_def Inr Let_def
      show ?thesis
      proof (cases "Build getenv quote load_pair manage (cf_tls cfg)")
        case (Inl e)
        with Failed Build_outcome [OF tls Inl] show ?thesis by (auto simp: start)
      next
        case tlsc: (Inr tlsConfig)
        obtain srv where srv: "new_server cfg ?d ?st tlsConfig = Some srv"
          using new_server_valid [OF valid] by blast
        obtain r srv' where r: "Serve listen srv = (r, srv')" by fastforce
        have "bk_cfg (sv_be srv) = cfg" using new_backend_Some [OF new_server_backend [OF srv]] by blast
        with r have "r = Some e \<Longrightarrow> \<exists>l\<in>set (cf_listeners cfg). \<exists>n. isl (listen n (ls_address l))" for e
          using serve_listeners_fails unfolding Serve_def by metis
        moreover have "err = ListenError e" if "r = Some e" for e
          using Failed r that by (simp add: start tlsc srv)
        moreover have "r \<noteq> None" using Failed r by (cases r) (simp_all add: start tlsc srv)
        ultimately show ?thesis unfolding Failed by (cases r) simp_all
      qed
    qed
  qed
qed (simp_all add: run_def runServer_def)


theorem check_predicts_start_witness:
  "runServer id load_example (\<lambda>_. Inr empty_db) (Build (\<lambda>_. []) id (\<lambda>c k. Inr (c, k)) (\<lambda>_. Inr []))
     (\<lambda>n a. Inr a) ''config.yaml'' True = Checked (checked_line id listening_config)"
  using check_predicts_start [OF load_example_def, where quote = id and open_db = "\<lambda>_. Inr empty_db"
      and load_pair = "\<lambda>c k. Inr (c, k)" and manage = "\<lambda>_. Inr []" and listen = "\<lambda>n a. Inr a"
      and path = "''config.yaml''"] load_example_OK
  by blast

end
