(* ===== verification/Data_Steps.thy ===== *)
theory Data_Steps
  imports Submission
begin

text \<open>
  \<open>Data\<close> cut into the pieces between which the rest of the program can act: reading the clock and the
  id and logging the message, the synchronous delivery to one route, the insertion of one job. The
  payload of a route is built from the id, the time and the parsed message, which do not change on the
  way. Run without interruption, the pieces are \<open>Data\<close>.
\<close>

section \<open>The pieces\<close>

datatype data_pc =
    DataRead bytes
  | DataSync string int message "route list" "route list"
  | DataEnqueue string int message "route list"

datatype data_status = DataAt data_pc | DataDone "session_error option"

fun data_step :: "env \<Rightarrow> backend \<Rightarrow> data_pc \<Rightarrow> data_status session_op" where
  "data_step E b (DataRead raw) = do {
     receivedAt \<leftarrow> in_world (time_Now E);
     i \<leftarrow> in_world (new_uuid E);
     s \<leftarrow> get_session;
     let msg = Parse (env_read E) (ss_from s) (rcptAddrs s) raw;
     let (order, routes) = matched_routes ([], Map.empty) (ss_rcpts s);
     _ \<leftarrow> in_world (LogMessage E (bk_store b) (message_log_of s i receivedAt order msg raw));
     State_Monad.return (DataAt (DataSync i receivedAt msg (map (\<lambda>name. the (routes name)) order) []))
   }"
| "data_step E b (DataSync i t msg [] async) = State_Monad.return (DataAt (DataEnqueue i t msg async))"
| "data_step E b (DataSync i t msg (route # rest) async) =
     (if \<not> HasWebhook route then State_Monad.return (DataAt (DataSync i t msg rest async))
      else if EffectiveMode route (dl_default_mode (cf_delivery (bk_cfg b))) = ModeSync then do {
        ce \<leftarrow> in_world (DeliverSync E (bk_deliverer b) route (BuildPayload i t route msg));
        if snd ce \<noteq> None then do {
          s \<leftarrow> get_session;
          e \<leftarrow> reject E b ''data'' (Join (rcptAddrs s) '','') (err_downstream E (rt_name route) (fst ce));
          State_Monad.return (DataDone e)
        }
        else State_Monad.return (DataAt (DataSync i t msg rest async))
      }
      else State_Monad.return (DataAt (DataSync i t msg rest (async @ [route]))))"
| "data_step E b (DataEnqueue i t msg []) = State_Monad.return (DataDone None)"
| "data_step E b (DataEnqueue i t msg (route # rest)) = do {
     err \<leftarrow> in_world (EnqueuePayload E (BuildPayload i t route msg));
     if err \<noteq> None then do {
       s \<leftarrow> get_session;
       e \<leftarrow> reject E b ''data'' (Join (rcptAddrs s) '','') err_queuing;
       State_Monad.return (DataDone e)
     }
     else State_Monad.return (DataAt (DataEnqueue i t msg rest))
   }"

text \<open>An uninterrupted run of the pieces to the reply.\<close>

inductive data_run :: "env \<Rightarrow> backend \<Rightarrow> data_pc \<Rightarrow> session \<times> world \<Rightarrow> session_error option
    \<Rightarrow> session \<times> world \<Rightarrow> bool" for E b where
  reply: "result (data_step E b pc) sw = DataDone r \<Longrightarrow>
    data_run E b pc sw r (after (data_step E b pc) sw)"
| piece: "result (data_step E b pc) sw = DataAt pc' \<Longrightarrow>
    data_run E b pc' (after (data_step E b pc) sw) r sw' \<Longrightarrow> data_run E b pc sw r sw'"

lemma data_run_deterministic:
  "data_run E b pc sw r sw' \<Longrightarrow> data_run E b pc sw r2 sw2 \<Longrightarrow> r2 = r \<and> sw2 = sw'"
proof (induction arbitrary: r2 sw2 rule: data_run.induct)
  case (reply pc sw r)
  from reply.prems reply.hyps show ?case by (cases rule: data_run.cases) auto
next
  case (piece pc sw pc' r sw')
  from piece.prems have "data_run E b pc' (after (data_step E b pc) sw) r2 sw2"
    by (cases rule: data_run.cases) (use piece.hyps(1) in simp_all)
  then show ?case by (rule piece.IH)
qed

lemma data_run_enqueue:
  "data_run E b (DataEnqueue i t msg rs) sw
     (result (enqueue_phase E b (\<lambda>rt. BuildPayload i t rt msg) rs) sw)
     (after (enqueue_phase E b (\<lambda>rt. BuildPayload i t rt msg) rs) sw)"
proof (induction rs arbitrary: sw)
  case Nil
  show ?case using data_run.reply [of E b "DataEnqueue i t msg []" sw] by simp
next
  case (Cons rt rs)
  let ?m = "EnqueuePayload E (BuildPayload i t rt msg)" and ?pc = "DataEnqueue i t msg (rt # rs)"
  show ?case
  proof (cases "result ?m (snd sw) = None")
    case True
    show ?thesis
      by (rule data_run.piece [where pc' = "DataEnqueue i t msg rs"])
        (use True Cons.IH [of "(fst sw, after ?m (snd sw))"] in simp_all)
  next
    case False
    then show ?thesis using data_run.reply [of E b ?pc sw] by auto
  qed
qed

lemma data_run_sync:
  "data_run E b (DataSync i t msg rs acc) sw
     (case result (sync_phase E b (\<lambda>rt. BuildPayload i t rt msg) rs acc) sw of
        Inl e \<Rightarrow> Some e
      | Inr async \<Rightarrow> result (enqueue_phase E b (\<lambda>rt. BuildPayload i t rt msg) async)
          (after (sync_phase E b (\<lambda>rt. BuildPayload i t rt msg) rs acc) sw))
     (case result (sync_phase E b (\<lambda>rt. BuildPayload i t rt msg) rs acc) sw of
        Inl e \<Rightarrow> after (sync_phase E b (\<lambda>rt. BuildPayload i t rt msg) rs acc) sw
      | Inr async \<Rightarrow> after (enqueue_phase E b (\<lambda>rt. BuildPayload i t rt msg) async)
          (after (sync_phase E b (\<lambda>rt. BuildPayload i t rt msg) rs acc) sw))"
proof (induction rs arbitrary: acc sw)
  case Nil
  show ?case
    by (rule data_run.piece [where pc' = "DataEnqueue i t msg acc"]) (simp_all add: data_run_enqueue)
next
  case (Cons rt rs)
  let ?pf = "\<lambda>rt. BuildPayload i t rt msg" and ?pc = "DataSync i t msg (rt # rs) acc"
  let ?m = "DeliverSync E (bk_deliverer b) rt (?pf rt)"
  show ?case
  proof (rule sync_phase_cases [where rt = rt and b = b and E = E and pf = ?pf and w = "snd sw"])
    assume "\<not> HasWebhook rt"
    with Cons.IH show ?thesis
      using data_run.piece [of E b ?pc sw "DataSync i t msg rs acc"] by (simp cong: sum.case_cong)
  next
    assume "HasWebhook rt" "\<not> is_sync b rt"
    with Cons.IH show ?thesis
      using data_run.piece [of E b ?pc sw "DataSync i t msg rs (acc @ [rt])"] by (simp add: is_sync_def cong: sum.case_cong)
  next
    assume d: "HasWebhook rt" "is_sync b rt" "snd (result ?m (snd sw)) = None"
    with Cons.IH [of acc "(fst sw, after ?m (snd sw))"] show ?thesis
      using data_run.piece [of E b ?pc sw "DataSync i t msg rs acc"] by (simp add: is_sync_def cong: sum.case_cong)
  next
    assume "HasWebhook rt" "is_sync b rt" "snd (result ?m (snd sw)) \<noteq> None"
    then show ?thesis using data_run.reply [of E b ?pc sw] by (auto simp: is_sync_def)
  qed
qed

lemma data_read:
  "result (data_step E b (DataRead raw)) (s, w) =
     DataAt (DataSync (env_uuid E (n_uuid w)) (env_now E (n_now w))
       (Parse (env_read E) (ss_from s) (rcptAddrs s) raw) (distinct_routes (ss_rcpts s)) [])"
  "after (data_step E b (DataRead raw)) (s, w) = (s, logged_world E b s w raw)"
proof -
  have o: "fst (matched_routes ([], Map.empty) rcs) = first_seen [] (map (rt_name \<circ> snd) rcs)" for rcs
    using matched_routes_spec [of Map.empty "[]" rcs] by simp
  show "result (data_step E b (DataRead raw)) (s, w) =
     DataAt (DataSync (env_uuid E (n_uuid w)) (env_now E (n_now w))
       (Parse (env_read E) (ss_from s) (rcptAddrs s) raw) (distinct_routes (ss_rcpts s)) [])"
    "after (data_step E b (DataRead raw)) (s, w) = (s, logged_world E b s w raw)"
    by (simp_all add: Let_def case_prod_beta distinct_routes_def logged_world_def o run_simps)
qed

lemma data_run_Data:
  "data_run E b (DataRead raw) (s, w) (result (Data E b (Inr raw)) (s, w)) (after (Data E b (Inr raw)) (s, w))"
proof (rule data_run.piece [OF data_read(1)])
  have pf: "data_payload E s w raw = (\<lambda>rt. BuildPayload (env_uuid E (n_uuid w)) (env_now E (n_now w)) rt
      (Parse (env_read E) (ss_from s) (rcptAddrs s) raw))"
    by (simp add: data_payload_def fun_eq_iff)
  show "data_run E b (DataSync (env_uuid E (n_uuid w)) (env_now E (n_now w))
       (Parse (env_read E) (ss_from s) (rcptAddrs s) raw) (distinct_routes (ss_rcpts s)) [])
     (after (data_step E b (DataRead raw)) (s, w)) (result (Data E b (Inr raw)) (s, w))
     (after (Data E b (Inr raw)) (s, w))"
    unfolding Data_parts data_read(2) data_sync_def pf by (rule data_run_sync)
qed

text \<open>So the pieces, uninterrupted, do what \<open>Data\<close> does, and nothing else.\<close>

lemma data_run_iff:
  "data_run E b (DataRead raw) sw r sw' \<longleftrightarrow>
     r = result (Data E b (Inr raw)) sw \<and> sw' = after (Data E b (Inr raw)) sw"
  using data_run_Data [of E b raw "fst sw" "snd sw"] data_run_deterministic by fastforce

section \<open>What one piece does\<close>

text \<open>Id, time and parsed message, fixed by the first piece; and whether a route with a webhook is still
  to be served.\<close>

fun data_ctx :: "data_pc \<Rightarrow> (string \<times> int \<times> message) option" where
  "data_ctx (DataRead raw) = None"
| "data_ctx (DataSync i t msg todo async) = Some (i, t, msg)"
| "data_ctx (DataEnqueue i t msg todo) = Some (i, t, msg)"

fun to_serve :: "backend \<Rightarrow> route \<Rightarrow> data_pc \<Rightarrow> bool" where
  "to_serve b rt (DataRead raw) \<longleftrightarrow> True"
| "to_serve b rt (DataSync i t msg todo async) \<longleftrightarrow> rt \<in> set todo \<or> rt \<in> set async \<and> \<not> is_sync b rt"
| "to_serve b rt (DataEnqueue i t msg todo) \<longleftrightarrow> rt \<in> set todo \<and> \<not> is_sync b rt"

definition handed :: "env \<Rightarrow> backend \<Rightarrow> route \<Rightarrow> payload \<Rightarrow> world \<Rightarrow> bool" where
  "handed E b rt p w \<longleftrightarrow> (if is_sync b rt then posted E rt p w else enqueued E p w)"

lemma data_step_session [simp]: "fst (after (data_step E b pc) sw) = fst sw"
  by (induction E b pc rule: data_step.induct) (auto simp: reject_def case_prod_beta Let_def)

lemma outside_data_step: "outside_step (snd sw) (snd (after (data_step E b pc) sw))"
proof -
  note keep = calls_keepD [OF outside_calls [where E = E and b = b]]
  have rej: "outside_step v w \<Longrightarrow> outside_step v (snd (after (reject E b st r e) (s, w)))" for v w s st r e
    by (auto simp: reject_def intro: keep)
  have dlv: "outside_step w (after (DeliverSync E (bk_deliverer b) rt p) w)" for rt p w
    by (rule outside_frame) (use DeliverSync_sends [of E "bk_deliverer b" rt p w] in auto)
  have log: "outside_step (snd sw) (snd (after (data_step E b (DataRead raw)) sw))" for raw
    using logged_world_kept(1) by (cases sw) (simp add: data_read del: data_step.simps)
  show ?thesis
  proof (cases "(E, b, pc)" rule: data_step.cases)
    case (1 E' b' raw)
    with log show ?thesis by (simp del: data_step.simps)
  qed (auto intro: rej dlv outside_EnqueuePayload outside_refl)
qed

text \<open>Only the end of the queueing accepts, and there no route is left.\<close>

lemma data_step_accepts:
  assumes "result (data_step E b pc) sw = DataDone None"
  obtains i t msg where "pc = DataEnqueue i t msg []"
  using assms by (cases "(E, b, pc)" rule: data_step.cases)
    (auto simp: reject_def Let_def case_prod_beta split: if_splits)

lemma data_step_ctx:
  assumes "result (data_step E b pc) sw = DataAt pc'"
  shows "case data_ctx pc of
      None \<Rightarrow> \<exists>raw y z. pc = DataRead raw \<and> data_ctx pc' = Some (env_uuid E y, env_now E z,
          Parse (env_read E) (ss_from (fst sw)) (rcptAddrs (fst sw)) raw)
        \<and> (\<forall>rt\<in>set (distinct_routes (ss_rcpts (fst sw))). to_serve b rt pc')
    | Some c \<Rightarrow> data_ctx pc' = Some c"
proof (cases "(E, b, pc)" rule: data_step.cases)
  case (1 E' b' raw)
  with assms data_read(1) [of E b raw "fst sw" "snd sw"] show ?thesis
    by (auto simp del: data_step.simps)
qed (use assms in \<open>auto split: if_splits\<close>)

lemma data_step_serves:
  assumes "result (data_step E b pc) sw = DataAt pc'" "data_ctx pc = Some (i, t, msg)"
    and "to_serve b rt pc" "HasWebhook rt" "db_ok (db_of (snd sw))"
  shows "to_serve b rt pc' \<or> handed E b rt (BuildPayload i t rt msg) (snd (after (data_step E b pc) sw))"
  using assms
  by (cases "(E, b, pc)" rule: data_step.cases)
    (auto simp: handed_def is_sync_def intro: DeliverSync_posted EnqueuePayload_enqueued split: if_splits)

end
