(* ===== verification/Composition.thy ===== *)
theory Composition
  imports Commands Data_Steps
begin

text \<open>
  The running program: the delivery worker, any number of connected SMTP clients, the web interface
  and the purge, on one database. A step is one atomic piece of the worker, one command of one client,
  one web request or one purge; the two statements of a web deletion run together in its step, and so
  do a synchronous delivery and its log entry. \<open>DATA\<close>, which makes many calls, is not one step: it goes piece by piece
  (\<open>data_step\<close>), and between two pieces of one client everything else can act, other clients in the
  middle of their own \<open>DATA\<close> included. A client whose \<open>DATA\<close> is running gives no other command. A panic in
  a goroutine ends the process, so nothing follows a crash.
\<close>

section \<open>A component beside the worker\<close>

text \<open>The contract of everything that shares the database with the worker.\<close>

locale neighbour =
  fixes act :: "'i \<Rightarrow> world \<Rightarrow> world"
  assumes harmless: "outside_step w (act x w)"
begin

lemma steps: "wk_phase s \<noteq> Crashed \<Longrightarrow> worker_step E d s (s\<lparr>wk_world := act x (wk_world s)\<rparr>)"
  by (rule worker_step.outside [OF _ harmless])

lemma jobs_stay:
  assumes "db_ok (db_of w)" "queue_map (db_of w) i = Some x"
  shows "queue_map (db_of (act y w)) i = Some x"
  using harmless [of w y] assms unfolding outside_step_def by blast

end

lemma outside_command: "outside_step (snd sw) (snd (after (exec_command E b c) sw))"
  by (rule calls_keep_command [OF outside_calls]) simp_all

lemma outside_piece: "outside_step w (snd (after (data_step E b pc) (s, w)))"
  using outside_data_step [where sw = "(s, w)"] by simp

lemma outside_NewSession: "outside_step w (after (NewSession E b remote laddr) w)"
  by (auto simp: NewSession_def Let_def intro!: calls_keepD(4) [OF outside_calls])

lemma outside_dispatch: "outside_step w (after (dispatch E r) w)"
  using handlers_keep_queue by (intro outside_frame) (auto simp: keepsD)

lemma outside_purge: "outside_step w (after (purge E days) w)"
  by (intro outside_frame) (auto simp: keepsD)

interpretation commands: neighbour "\<lambda>(c, s) w. snd (after (exec_command E b c) (s, w))" for E b
  using outside_command [where sw = "(s, w)" for s w] by unfold_locales auto

interpretation pieces: neighbour "\<lambda>(pc, s) w. snd (after (data_step E b pc) (s, w))" for E b
  by unfold_locales (auto simp: outside_piece)

interpretation connections: neighbour "\<lambda>(remote, laddr). after (NewSession E b remote laddr)" for E b
  by unfold_locales (auto simp: outside_NewSession)

interpretation browsers: neighbour "\<lambda>r. after (dispatch E r)" for E
  by unfold_locales (rule outside_dispatch)

interpretation purges: neighbour "\<lambda>days. after (purge E days)" for E
  by unfold_locales (rule outside_purge)

section \<open>The steps\<close>

text \<open>A connected client: its session, and the next piece of its \<open>DATA\<close> when it is in one.\<close>

record client =
  cl_session :: session
  cl_data :: "data_pc option"

record bridge_state =
  bs_worker :: worker
  bs_clients :: "nat \<Rightarrow> client option"

abbreviation bs_world :: "bridge_state \<Rightarrow> world" where
  "bs_world S \<equiv> wk_world (bs_worker S)"

definition in_bridge :: "(world \<Rightarrow> world) \<Rightarrow> bridge_state \<Rightarrow> bridge_state" where
  "in_bridge f S = S\<lparr>bs_worker := (bs_worker S)\<lparr>wk_world := f (bs_world S)\<rparr>\<rparr>"

text \<open>The state after a computation \<open>m\<close> of the client \<open>k\<close>, whose session is \<open>s\<close>; \<open>d\<close> is the piece that is
  next.\<close>

definition client_acts ::
  "'a session_op \<Rightarrow> nat \<Rightarrow> session \<Rightarrow> data_pc option \<Rightarrow> bridge_state \<Rightarrow> bridge_state" where
  "client_acts m k s d S =
     (in_bridge (\<lambda>w. snd (after m (s, w))) S)
       \<lparr>bs_clients := (bs_clients S)
          (k \<mapsto> \<lparr>cl_session = fst (after m (s, bs_world S)), cl_data = d\<rparr>)\<rparr>"

inductive bridge_step :: "env \<Rightarrow> backend \<Rightarrow> bridge_state \<Rightarrow> bridge_state \<Rightarrow> bool" for E b where
  work: "own_step E (bk_deliverer b) (bs_worker S) s' \<Longrightarrow> bridge_step E b S (S\<lparr>bs_worker := s'\<rparr>)"
| connect: "wk_phase (bs_worker S) \<noteq> Crashed \<Longrightarrow> bs_clients S k = None \<Longrightarrow>
    result (NewSession E b remote laddr) (bs_world S) = Inr s \<Longrightarrow>
    bridge_step E b S ((in_bridge (after (NewSession E b remote laddr)) S)
      \<lparr>bs_clients := (bs_clients S)(k \<mapsto> \<lparr>cl_session = s, cl_data = None\<rparr>)\<rparr>)"
| refuse: "wk_phase (bs_worker S) \<noteq> Crashed \<Longrightarrow>
    result (NewSession E b remote laddr) (bs_world S) = Inl e \<Longrightarrow>
    bridge_step E b S (in_bridge (after (NewSession E b remote laddr)) S)"
| command: "wk_phase (bs_worker S) \<noteq> Crashed \<Longrightarrow>
    bs_clients S k = Some \<lparr>cl_session = s, cl_data = None\<rparr> \<Longrightarrow> (\<And>raw. c \<noteq> CmdData (Inr raw)) \<Longrightarrow>
    bridge_step E b S (client_acts (exec_command E b c) k s None S)"
| data: "wk_phase (bs_worker S) \<noteq> Crashed \<Longrightarrow>
    bs_clients S k = Some \<lparr>cl_session = s, cl_data = None\<rparr> \<Longrightarrow>
    bridge_step E b S (S\<lparr>bs_clients := (bs_clients S)
      (k \<mapsto> \<lparr>cl_session = s, cl_data = Some (DataRead raw)\<rparr>)\<rparr>)"
| piece: "wk_phase (bs_worker S) \<noteq> Crashed \<Longrightarrow>
    bs_clients S k = Some \<lparr>cl_session = s, cl_data = Some pc\<rparr> \<Longrightarrow>
    result (data_step E b pc) (s, bs_world S) = DataAt pc' \<Longrightarrow>
    bridge_step E b S (client_acts (data_step E b pc) k s (Some pc') S)"
| reply: "wk_phase (bs_worker S) \<noteq> Crashed \<Longrightarrow>
    bs_clients S k = Some \<lparr>cl_session = s, cl_data = Some pc\<rparr> \<Longrightarrow>
    result (data_step E b pc) (s, bs_world S) = DataDone r \<Longrightarrow>
    bridge_step E b S (client_acts (data_step E b pc) k s None S)"
| hang_up: "wk_phase (bs_worker S) \<noteq> Crashed \<Longrightarrow>
    bs_clients S k = Some \<lparr>cl_session = s, cl_data = None\<rparr> \<Longrightarrow>
    bridge_step E b S (S\<lparr>bs_clients := (bs_clients S)(k := None)\<rparr>)"
| browse: "wk_phase (bs_worker S) \<noteq> Crashed \<Longrightarrow>
    bridge_step E b S (in_bridge (after (dispatch E r)) S)"
| purge_rejections: "wk_phase (bs_worker S) \<noteq> Crashed \<Longrightarrow>
    bridge_step E b S (in_bridge (after (purge E days)) S)"

inductive bridge_reachable :: "env \<Rightarrow> backend \<Rightarrow> world \<Rightarrow> bridge_state \<Rightarrow> bool" for E b w where
  start: "bridge_reachable E b w \<lparr>bs_worker = worker_start w, bs_clients = Map.empty\<rparr>"
| more: "bridge_reachable E b w S \<Longrightarrow> bridge_step E b S S' \<Longrightarrow> bridge_reachable E b w S'"

lemma in_bridge_sel [simp]:
  "bs_worker (in_bridge f S) = (bs_worker S)\<lparr>wk_world := f (bs_world S)\<rparr>"
  "bs_clients (in_bridge f S) = bs_clients S"
  by (simp_all add: in_bridge_def)

lemma client_acts_sel [simp]:
  "bs_worker (client_acts m k s d S) = (bs_worker S)\<lparr>wk_world := snd (after m (s, bs_world S))\<rparr>"
  "bs_clients (client_acts m k s d S) = (bs_clients S)
     (k \<mapsto> \<lparr>cl_session = fst (after m (s, bs_world S)), cl_data = d\<rparr>)"
  by (simp_all add: client_acts_def)

section \<open>Simulation by the worker\<close>

text \<open>The worker in its own surroundings simulates the program: each step of the program is a step of
  the worker, or one of its surroundings, or none.\<close>

lemma bridge_step_worker:
  "bridge_step E b S S' \<Longrightarrow>
     worker_step E (bk_deliverer b) (bs_worker S) (bs_worker S') \<or> bs_worker S' = bs_worker S"
proof (induction rule: bridge_step.induct)
  case (connect S k remote laddr s)
  then show ?case using connections.steps [where x = "(remote, laddr)"] by simp
next
  case (refuse S remote laddr e)
  then show ?case using connections.steps [where x = "(remote, laddr)"] by simp
next
  case (command S k s c)
  then show ?case using commands.steps [where x = "(c, s)"] by simp
next
  case (piece S k s pc pc')
  then show ?case using pieces.steps [where x = "(pc, s)"] by simp
next
  case (reply S k s pc r)
  then show ?case using pieces.steps [where x = "(pc, s)"] by simp
qed (auto intro: worker_step.own browsers.steps purges.steps)

lemma bridge_reachable_worker:
  "bridge_reachable E b w S \<Longrightarrow> worker_reachable E (bk_deliverer b) w (bs_worker S)"
proof (induction rule: bridge_reachable.induct)
  case start
  show ?case by (simp add: worker_reachable.start)
next
  case (more S S')
  from bridge_step_worker [OF more.hyps(2)] more.IH show ?case by (auto intro: worker_reachable.more)
qed

lemma bridge_inv:
  "bridge_reachable E b w S \<Longrightarrow> db_ok (db_of w) \<Longrightarrow> worker_inv (bk_deliverer b) (bs_worker S)"
  by (rule worker_inv_reachable [OF bridge_reachable_worker])

section \<open>The sessions\<close>

text \<open>Every recipient named in an open session is for a configured route of a user who has a
  password.\<close>

definition has_password :: "env \<Rightarrow> backend \<Rightarrow> string \<Rightarrow> bool" where
  "has_password E b u \<longleftrightarrow> (\<exists>pw. accepts_password E b u pw)"

definition sessions_ok :: "env \<Rightarrow> backend \<Rightarrow> bridge_state \<Rightarrow> bool" where
  "sessions_ok E b S \<longleftrightarrow>
     (\<forall>k c. bs_clients S k = Some c \<longrightarrow> session_ok E b (has_password E b) (cl_session c))"

lemma sessions_okD:
  "sessions_ok E b S \<Longrightarrow> bs_clients S k = Some \<lparr>cl_session = s, cl_data = d\<rparr> \<Longrightarrow>
     session_ok E b (has_password E b) s"
  by (force simp: sessions_ok_def)

lemma sessions_ok_step:
  assumes "\<forall>rt\<in>set (bk_routes b). rt_username rt \<noteq> []"
  shows "bridge_step E b S S' \<Longrightarrow> sessions_ok E b S \<Longrightarrow> sessions_ok E b S'"
proof (induction rule: bridge_step.induct)
  case (connect S k remote laddr s)
  then have "s = new_session remote (localPort laddr)"
    by (auto simp: NewSession_def Let_def split: if_splits)
  with connect show ?case by (auto simp: sessions_ok_def session_ok_def new_session_def)
next
  case (command S k s c)
  have "session_ok E b (has_password E b) (fst (after (exec_command E b c) (s, bs_world S)))"
    using sessions_okD [OF command.prems command.hyps(2)]
    by (intro session_ok_command [OF assms]) (auto simp: has_password_def)
  with command show ?case by (simp add: sessions_ok_def)
next
  case (data S k s raw)
  then show ?case using sessions_okD [OF data.prems data.hyps(2)] by (simp add: sessions_ok_def)
next
  case (piece S k s pc pc')
  then show ?case using sessions_okD [OF piece.prems piece.hyps(2)] by (simp add: sessions_ok_def)
next
  case (reply S k s pc r)
  then show ?case using sessions_okD [OF reply.prems reply.hyps(2)] by (simp add: sessions_ok_def)
qed (auto simp: sessions_ok_def)

lemma sessions_ok_reachable:
  assumes "bridge_reachable E b w S" "\<forall>rt\<in>set (bk_routes b). rt_username rt \<noteq> []"
  shows "sessions_ok E b S"
  using assms(1)
proof (induction rule: bridge_reachable.induct)
  case start
  show ?case by (simp add: sessions_ok_def)
next
  case (more S S')
  then show ?case by (blast intro: sessions_ok_step [OF assms(2)])
qed

section \<open>The fate of a queued job\<close>

lemma outside_http: "outside_step w w' \<Longrightarrow> set (http_sent w) \<subseteq> set (http_sent w')"
  by (simp add: outside_step_def)

lemma worker_step_http: "worker_step E d s s' \<Longrightarrow> set (http_sent (wk_world s)) \<subseteq> set (http_sent (wk_world s'))"
proof (induction rule: worker_step.induct)
  case (own s s')
  then show ?case by (rule own_step_http)
next
  case (outside s w')
  then show ?case using outside_http by simp
qed

lemma bridge_step_http: "bridge_step E b S S' \<Longrightarrow> set (http_sent (bs_world S)) \<subseteq> set (http_sent (bs_world S'))"
  using bridge_step_worker worker_step_http by fastforce

lemma bridge_step_job:
  assumes "bridge_step E b S S'" "worker_inv (bk_deliverer b) (bs_worker S)" "operating (bs_worker S)"
    and "queue_map (db_of (bs_world S)) i = Some (j, t)"
  shows "(\<exists>n t'. queue_map (db_of (bs_world S')) i = Some (j\<lparr>jb_Attempts := n\<rparr>, t'))
    \<or> dv_routes (bk_deliverer b) (jb_Route j) = None \<or> delivered (bk_deliverer b) (bs_world S) j
    \<or> dl_max_retries (dv_cfg (bk_deliverer b)) \<le> job_attempt j"
proof -
  let ?q = "queue_map (db_of (bs_world S')) i"
  have same: "?q = Some (j, t) \<Longrightarrow> \<exists>n t'. ?q = Some (j\<lparr>jb_Attempts := n\<rparr>, t')"
    by (intro exI [of _ "jb_Attempts j"] exI [of _ t]) simp
  from bridge_step_worker [OF assms(1)] show ?thesis
  proof
    assume "worker_step E (bk_deliverer b) (bs_worker S) (bs_worker S')"
    then show ?thesis
    proof cases
      case own
      show ?thesis
      proof (cases ?q)
        case None
        from own_step_removes [OF assms(2,3) own assms(4) None] show ?thesis by blast
      next
        case (Some x)
        then have q: "?q = Some (fst x, snd x)" by simp
        from own_step_keeps_job [OF assms(2,3) own assms(4) this] obtain n where
          "fst x = j\<lparr>jb_Attempts := n\<rparr>" by blast
        with q show ?thesis by (intro disjI1 exI [of _ n] exI [of _ "snd x"]) simp
      qed
    next
      case (outside w')
      moreover have "db_ok (db_of (bs_world S))" using assms(2) by (simp add: worker_inv_def)
      ultimately have "?q = Some (j, t)" using assms(4) unfolding outside_step_def by simp
      with same show ?thesis by blast
    qed
  next
    assume "bs_worker S' = bs_worker S"
    with assms(4) same show ?thesis by simp
  qed
qed

lemma delivered_attempts [simp]: "delivered d w (j\<lparr>jb_Attempts := n\<rparr>) = delivered d w j"
  by (simp add: delivered_def)

lemma job_attempt_update [simp]: "job_attempt (j\<lparr>jb_Attempts := n\<rparr>) = wrap64 (n + 1)"
  by (simp add: job_attempt_def)

text \<open>A run of the program, and where a job queued at its start is at its end.\<close>

definition bridge_run :: "env \<Rightarrow> backend \<Rightarrow> (nat \<Rightarrow> bridge_state) \<Rightarrow> nat \<Rightarrow> bool" where
  "bridge_run E b f n \<longleftrightarrow>
     (\<forall>k<n. bridge_step E b (f k) (f (Suc k)) \<and> operating (bs_worker (f k)))"

lemma bridge_run_http:
  "bridge_run E b f n \<Longrightarrow> set (http_sent (bs_world (f 0))) \<subseteq> set (http_sent (bs_world (f n)))"
proof (induction n)
  case (Suc n)
  then have "bridge_run E b f n" "bridge_step E b (f n) (f (Suc n))" by (simp_all add: bridge_run_def)
  with Suc.IH bridge_step_http show ?case by blast
qed simp

lemma job_fate:
  assumes "bridge_reachable E b w (f 0)" "db_ok (db_of w)" "bridge_run E b f n"
    and "queue_map (db_of (bs_world (f 0))) i = Some (j, t)"
    and "dv_routes (bk_deliverer b) (jb_Route j) \<noteq> None"
  shows "(\<exists>m t'. queue_map (db_of (bs_world (f n))) i = Some (j\<lparr>jb_Attempts := m\<rparr>, t'))
    \<or> delivered (bk_deliverer b) (bs_world (f n)) j
    \<or> (\<exists>k<n. \<exists>m t'. queue_map (db_of (bs_world (f k))) i = Some (j\<lparr>jb_Attempts := m\<rparr>, t')
        \<and> dl_max_retries (dv_cfg (bk_deliverer b)) \<le> wrap64 (m + 1))"
  using assms(3)
proof (induction n)
  case 0
  have "j = j\<lparr>jb_Attempts := jb_Attempts j\<rparr>" by simp
  with assms(4) have "queue_map (db_of (bs_world (f 0))) i = Some (j\<lparr>jb_Attempts := jb_Attempts j\<rparr>, t)"
    by simp
  then show ?case by blast
next
  case (Suc n)
  then have run: "bridge_run E b f n" and step: "bridge_step E b (f n) (f (Suc n))"
    and op: "operating (bs_worker (f n))" by (simp_all add: bridge_run_def)
  have "bridge_reachable E b w (f m)" if "m \<le> n" for m
    using that assms(1) run
    by (induction m) (auto simp: bridge_run_def intro: bridge_reachable.more)
  then have inv: "worker_inv (bk_deliverer b) (bs_worker (f n))"
    using bridge_inv [OF _ assms(2)] by blast
  note mono = delivered_mono [OF _ bridge_step_http [OF step]]
  from Suc.IH [OF run] show ?case
  proof (elim disjE exE conjE)
    fix m t'
    assume q: "queue_map (db_of (bs_world (f n))) i = Some (j\<lparr>jb_Attempts := m\<rparr>, t')"
    from bridge_step_job [OF step inv op q] assms(5)
    consider (still) m' t'' where "queue_map (db_of (bs_world (f (Suc n)))) i = Some (j\<lparr>jb_Attempts := m'\<rparr>, t'')"
      | (sent) "delivered (bk_deliverer b) (bs_world (f n)) j"
      | (spent) "dl_max_retries (dv_cfg (bk_deliverer b)) \<le> wrap64 (m + 1)"
      by auto
    then show ?thesis
    proof cases
      case still
      then show ?thesis by blast
    next
      case sent
      from mono [OF this] show ?thesis by blast
    next
      case spent
      with q show ?thesis by blast
    qed
  next
    assume "delivered (bk_deliverer b) (bs_world (f n)) j"
    from mono [OF this] show ?thesis by blast
  next
    fix k m t'
    assume "k < n" "queue_map (db_of (bs_world (f k))) i = Some (j\<lparr>jb_Attempts := m\<rparr>, t')"
      "dl_max_retries (dv_cfg (bk_deliverer b)) \<le> wrap64 (m + 1)"
    then show ?thesis using less_SucI by blast
  qed
qed

lemma bridge_run_reachable:
  "bridge_reachable E b w (f 0) \<Longrightarrow> bridge_run E b f n \<Longrightarrow> x \<le> n \<Longrightarrow> bridge_reachable E b w (f x)"
  by (induction x) (auto simp: bridge_run_def intro: bridge_reachable.more)

lemma bridge_run_shift: "bridge_run E b f n \<Longrightarrow> x \<le> n \<Longrightarrow> bridge_run E b (\<lambda>y. f (x + y)) (n - x)"
  by (simp add: bridge_run_def)

section \<open>A DATA in the midst of everything else\<close>

text \<open>The client \<open>k\<close> is in one and the same \<open>DATA\<close> from the start of a run to step \<open>m\<close>.\<close>

definition in_data :: "(nat \<Rightarrow> bridge_state) \<Rightarrow> nat \<Rightarrow> nat \<Rightarrow> bool" where
  "in_data f k m \<longleftrightarrow> (\<forall>x\<le>m. \<exists>s pc. bs_clients (f x) k = Some \<lparr>cl_session = s, cl_data = Some pc\<rparr>)"

text \<open>A step leaves such a client alone or is its next piece.\<close>

lemma bridge_step_client:
  "bridge_step E b S S' \<Longrightarrow> bs_clients S k = Some \<lparr>cl_session = s, cl_data = Some pc\<rparr> \<Longrightarrow>
     bs_clients S' k = Some \<lparr>cl_session = s', cl_data = Some pc'\<rparr> \<Longrightarrow>
     s' = s \<and> pc' = pc \<or> s' = s \<and> result (data_step E b pc) (s, bs_world S) = DataAt pc'
       \<and> bs_world S' = snd (after (data_step E b pc) (s, bs_world S))"
  by (induction rule: bridge_step.induct) (auto split: if_splits)

text \<open>What holds at every step of the \<open>DATA\<close>: every route with a webhook is still to be served or has been
  handed on in some earlier state.\<close>

definition data_inv :: "env \<Rightarrow> backend \<Rightarrow> (nat \<Rightarrow> bridge_state) \<Rightarrow> session \<Rightarrow> bytes \<Rightarrow> data_pc \<Rightarrow> nat \<Rightarrow> bool" where
  "data_inv E b f s raw pc x \<longleftrightarrow>
     (case data_ctx pc of
        None \<Rightarrow> pc = DataRead raw
      | Some (i, t, msg) \<Rightarrow> (\<exists>y z. i = env_uuid E y \<and> t = env_now E z)
          \<and> msg = Parse (env_read E) (ss_from s) (rcptAddrs s) raw
          \<and> (\<forall>rt\<in>set (distinct_routes (ss_rcpts s)). HasWebhook rt \<longrightarrow>
               to_serve b rt pc \<or> (\<exists>x'\<le>x. handed E b rt (BuildPayload i t rt msg) (bs_world (f x')))))"

lemma data_inv_step:
  assumes "data_inv E b f s raw pc x" "result (data_step E b pc) (s, bs_world (f x)) = DataAt pc'"
    and "bs_world (f (Suc x)) = snd (after (data_step E b pc) (s, bs_world (f x)))"
    and "db_ok (db_of (bs_world (f x)))"
  shows "data_inv E b f s raw pc' (Suc x)"
proof (cases "data_ctx pc")
  case None
  with data_step_ctx [OF assms(2)] assms(1) show ?thesis by (auto simp: data_inv_def)
next
  case (Some c)
  obtain i t msg where c: "c = (i, t, msg)" by (rule prod_cases3)
  have ctx: "data_ctx pc' = Some (i, t, msg)"
    using data_step_ctx [OF assms(2)] Some by (simp add: c)
  note serves = data_step_serves [OF assms(2) Some [unfolded c], simplified, OF _ _ assms(4), folded assms(3)]
  have "to_serve b rt pc' \<or> (\<exists>x'\<le>Suc x. handed E b rt (BuildPayload i t rt msg) (bs_world (f x')))"
    if "rt \<in> set (distinct_routes (ss_rcpts s))" "HasWebhook rt" for rt
    using assms(1) that serves [OF _ that(2)] Some le_SucI by (auto simp: data_inv_def c)
  with assms(1) Some ctx show ?thesis by (auto simp: data_inv_def c)
qed

lemma data_inv_run:
  assumes "bridge_reachable E b w (f 0)" "db_ok (db_of w)" "bridge_run E b f m" "in_data f k m"
    and "bs_clients (f 0) k = Some \<lparr>cl_session = s, cl_data = Some (DataRead raw)\<rparr>"
  shows "\<exists>pc. bs_clients (f m) k = Some \<lparr>cl_session = s, cl_data = Some pc\<rparr> \<and> data_inv E b f s raw pc m"
  using assms(3,4)
proof (induction m)
  case 0
  show ?case using assms(5) by (simp add: data_inv_def)
next
  case (Suc m)
  then have run: "bridge_run E b f m" and step: "bridge_step E b (f m) (f (Suc m))"
    and "in_data f k m" by (simp_all add: bridge_run_def in_data_def)
  with Suc.IH obtain pc where pc: "bs_clients (f m) k = Some \<lparr>cl_session = s, cl_data = Some pc\<rparr>"
    and inv: "data_inv E b f s raw pc m" by blast
  have ok: "db_ok (db_of (bs_world (f m)))"
    using bridge_inv [OF bridge_run_reachable [OF assms(1) run le_refl] assms(2)]
    by (simp add: worker_inv_def)
  from Suc.prems(2) obtain s' pc' where
    pc': "bs_clients (f (Suc m)) k = Some \<lparr>cl_session = s', cl_data = Some pc'\<rparr>"
    by (auto simp: in_data_def)
  from bridge_step_client [OF step pc pc'] show ?case
  proof (elim disjE conjE)
    assume "s' = s" "pc' = pc"
    with inv pc' show ?thesis by (auto simp: data_inv_def split: option.splits dest: le_SucI)
  next
    assume "s' = s" "result (data_step E b pc) (s, bs_world (f m)) = DataAt pc'"
      "bs_world (f (Suc m)) = snd (after (data_step E b pc) (s, bs_world (f m)))"
    with data_inv_step [OF inv _ _ ok] pc' show ?thesis by blast
  qed
qed

lemma data_accepts:
  assumes "bridge_reachable E b w (f 0)" "db_ok (db_of w)" "bridge_run E b f m" "in_data f k m"
    and "bs_clients (f 0) k = Some \<lparr>cl_session = s, cl_data = Some (DataRead raw)\<rparr>"
    and "bs_clients (f m) k = Some \<lparr>cl_session = s', cl_data = Some pc\<rparr>"
    and "result (data_step E b pc) (s', bs_world (f m)) = DataDone None"
  obtains y z where "\<And>rt. rt \<in> set (distinct_routes (ss_rcpts s)) \<Longrightarrow> HasWebhook rt \<Longrightarrow>
    \<exists>x\<le>m. handed E b rt (BuildPayload (env_uuid E y) (env_now E z) rt
      (Parse (env_read E) (ss_from s) (rcptAddrs s) raw)) (bs_world (f x))"
proof -
  from data_inv_run [OF assms(1-5)] assms(6) have inv: "data_inv E b f s raw pc m" by auto
  from data_step_accepts [OF assms(7)] obtain i t msg where "pc = DataEnqueue i t msg []" .
  with inv that show ?thesis by (auto simp: data_inv_def)
qed

section \<open>Properties\<close>

text \<open>C6: the program refines the worker in its abstract surroundings: it starts in the worker's start
  state, each of its steps is one the worker takes or allows, or leaves the worker where it is, and so
  every state it reaches shows a reachable state of the worker, for which all the worker's
  guarantees hold.\<close>

theorem bridge_refines_worker:
  "(bridge_step E b S S' \<longrightarrow>
      worker_step E (bk_deliverer b) (bs_worker S) (bs_worker S') \<or> bs_worker S' = bs_worker S)
   \<and> (bridge_reachable E b w S \<longrightarrow> worker_reachable E (bk_deliverer b) w (bs_worker S))"
  using bridge_step_worker bridge_reachable_worker by blast

theorem bridge_refines_worker_witness:
  "worker_reachable run_env (bk_deliverer (example_backend signed_route True)) initial_world
     (worker_start initial_world)"
  using bridge_refines_worker [of run_env "example_backend signed_route True" _ _ initial_world]
    bridge_reachable.start by fastforce

text \<open>C7: well-formedness of the running program: in every state it reaches, with any number of
  clients, the tables have unique keys below their counters, and every open session is either not
  logged in or belongs to a user with a working password, and has recipients only for configured
  routes that match them and belong to such a user.\<close>

theorem bridge_well_formed:
  assumes "bridge_reachable E b w S" "db_ok (db_of w)" "\<forall>rt\<in>set (bk_routes b). rt_username rt \<noteq> []"
  shows "db_ok (db_of (bs_world S))
    \<and> (\<forall>c\<in>ran (bs_clients S).
        (ss_username (cl_session c) = [] \<or> has_password E b (ss_username (cl_session c)))
        \<and> (\<forall>(a, rt)\<in>set (ss_rcpts (cl_session c)). rt \<in> set (bk_routes b)
             \<and> has_password E b (rt_username rt) \<and> route_accepts (env_fold E) rt (rt_username rt) a))"
  using bridge_inv [OF assms(1,2)] sessions_ok_reachable [OF assms(1,3)]
  by (fastforce simp: worker_inv_def sessions_ok_def session_ok_def routes_of_users_def ran_def)

text \<open>One client that connects and sends commands other than \<open>DATA\<close> while the worker has not woken up
  yet.\<close>

definition one_client :: "world \<Rightarrow> session \<Rightarrow> data_pc option \<Rightarrow> bridge_state" where
  "one_client v s d = \<lparr>bs_worker = worker_start v, bs_clients = [0 \<mapsto> \<lparr>cl_session = s, cl_data = d\<rparr>]\<rparr>"

lemma one_client_acts:
  "client_acts m 0 s d' (one_client v s d) = one_client (snd (after m (s, v))) (fst (after m (s, v))) d'"
  by (simp add: client_acts_def in_bridge_def worker_start_def one_client_def)

lemma one_client_sel [simp]:
  "bs_worker (one_client v s d) = worker_start v"
  "bs_clients (one_client v s d) k = (if k = 0 then Some \<lparr>cl_session = s, cl_data = d\<rparr> else None)"
  "ran (bs_clients (one_client v s d)) = {\<lparr>cl_session = s, cl_data = d\<rparr>}"
  by (simp_all add: one_client_def)

lemma one_client_running [simp]: "wk_phase (worker_start v) \<noteq> Crashed" "operating (worker_start v)"
  "wk_world (worker_start v) = v"
  by (simp_all add: worker_start_def operating_def)

lemma client_commands:
  "bridge_reachable E b w (one_client v s None) \<Longrightarrow> (\<forall>c\<in>set cs. \<forall>raw. c \<noteq> CmdData (Inr raw)) \<Longrightarrow>
     bridge_reachable E b w (one_client (snd (after (run_commands E b cs) (s, v)))
       (fst (after (run_commands E b cs) (s, v))) None)"
proof (induction cs arbitrary: s v)
  case (Cons c cs)
  let ?sw = "after (exec_command E b c) (s, v)"
  have "bridge_step E b (one_client v s None) (one_client (snd ?sw) (fst ?sw) None)"
    using bridge_step.command [of "one_client v s None" 0 s c E b] Cons.prems(2)
    by (simp add: one_client_acts)
  then have "bridge_reachable E b w (one_client (snd ?sw) (fst ?sw) None)"
    by (rule bridge_reachable.more [OF Cons.prems(1)])
  from Cons.IH [OF this] Cons.prems(2) show ?case by simp
qed simp

lemma client_connects:
  assumes "bk_allowNets b = []"
  shows "bridge_reachable E b w (one_client w (new_session remote (localPort laddr)) None)"
proof -
  let ?S = "\<lparr>bs_worker = worker_start w, bs_clients = Map.empty\<rparr>"
  have s: "result (NewSession E b remote laddr) w = Inr (new_session remote (localPort laddr))"
    "after (NewSession E b remote laddr) w = w"
    by (simp_all add: NewSession_def assms)
  with bridge_step.connect [of ?S 0 E b remote laddr] have
    "bridge_step E b ?S (one_client w (new_session remote (localPort laddr)) None)"
    by (simp add: worker_start_def in_bridge_def one_client_def)
  then show ?thesis by (rule bridge_reachable.more [OF bridge_reachable.start])
qed

lemma login_and_name_no_data: "\<forall>c\<in>set login_and_name. \<forall>raw. c \<noteq> CmdData (Inr raw)"
  by (simp add: login_and_name_def)

text \<open>The pieces of its \<open>DATA\<close>, uninterrupted, are a run of the program.\<close>

lemma data_run_bridge:
  "data_run E b pc (s, v) r sw \<Longrightarrow> \<exists>f m pc' u. f 0 = one_client v s (Some pc)
     \<and> f m = one_client u s (Some pc') \<and> bridge_run E b f m \<and> in_data f 0 m
     \<and> result (data_step E b pc') (s, u) = DataDone r"
proof (induction pc "(s, v)" r sw arbitrary: v rule: data_run.induct)
  case (reply pc r)
  then show ?case
    by (intro exI [of _ "\<lambda>_. one_client v s (Some pc)"] exI [of _ 0]) (auto simp: bridge_run_def in_data_def)
next
  case (piece pc pc' r sw)
  let ?v = "snd (after (data_step E b pc) (s, v))"
  from piece.hyps(3) [of ?v] obtain f m pc2 u where f: "f 0 = one_client ?v s (Some pc')"
    "f m = one_client u s (Some pc2)" "bridge_run E b f m" "in_data f 0 m"
    "result (data_step E b pc2) (s, u) = DataDone r"
    by (auto simp: prod_eq_iff)
  let ?f = "case_nat (one_client v s (Some pc)) f"
  have first: "bridge_step E b (one_client v s (Some pc)) (f 0)"
    using bridge_step.piece [of "one_client v s (Some pc)" 0 s pc E b pc'] piece.hyps(1) f(1)
    by (simp add: one_client_acts)
  have "bridge_run E b ?f (Suc m)" "in_data ?f 0 (Suc m)"
    using f(3,4) first by (auto simp: bridge_run_def in_data_def less_Suc_eq_0_disj le_Suc_eq split: nat.split)
  with f(2,5) show ?case by (intro exI [of _ ?f] exI [of _ "Suc m"]) auto
qed

theorem bridge_well_formed_witness:
  "has_password run_env (example_backend signed_route True) (rt_username signed_route)"
proof -
  let ?b = "example_backend signed_route True"
  have "bk_allowNets ?b = []" by (simp add: example_backend_def)
  note r = client_commands [OF client_connects [OF this, of run_env initial_world "''10.0.0.1:5''" "TCPAddr 587"],
      of login_and_name, OF login_and_name_no_data]
  have "\<forall>rt\<in>set (bk_routes ?b). rt_username rt \<noteq> []"
    by (simp add: example_backend_def signed_route_def)
  moreover have "db_ok (db_of initial_world)" by (simp add: initial_world_def)
  ultimately show ?thesis
    using bridge_well_formed [OF r] by (simp add: run_env_def localPort_def example_run [OF example_serves_alice])
qed

text \<open>C22: a negative concurrency, which the validation lets through, is fatal: the worker never has a
  job, and the first time it can read the queue, however empty, it brings the whole process down;
  all it can do instead is to be cancelled and stop.\<close>

theorem negative_concurrency_crashes:
  assumes "Load read_file decode getenv path = Inr cfg" "dl_concurrency (cf_delivery cfg) < 0"
    and "dv_cfg d = cf_delivery cfg" "worker_reachable E d w s"
  shows "wk_running s = [] \<and> wk_pending s = []
    \<and> (wk_phase s = Idle \<and> result (ClaimDue E (claim_limit d)) (wk_world s) = Inr js \<longrightarrow>
        own_step E d s (s\<lparr>wk_world := after (ClaimDue E (claim_limit d)) (wk_world s), wk_phase := Crashed\<rparr>)
        \<and> (\<forall>s'. own_step E d s s' \<longrightarrow>
             wk_phase s' \<in> {Crashed, Stopped} \<or> s' = s\<lparr>wk_cancelled := True\<rparr>))"
proof -
  have neg: "dl_concurrency (dv_cfg d) < 0" using assms(2,3) by simp
  note idle = negative_reachable [OF assms(4) neg]
  show ?thesis using idle neg by (auto intro: own_step.negative_cap dest: negative_claim)
qed

definition reckless_config :: config where
  "reckless_config = listening_config
     \<lparr>cf_delivery := (cf_delivery listening_config)\<lparr>dl_concurrency := - 1\<rparr>\<rparr>"

theorem negative_concurrency_crashes_witness:
  "\<exists>s. own_step run_env ((example_deliverer 3)\<lparr>dv_cfg := cf_delivery reckless_config\<rparr>)
     (worker_start initial_world) s \<and> wk_phase s = Crashed"
proof -
  let ?d = "(example_deliverer 3)\<lparr>dv_cfg := cf_delivery reckless_config\<rparr>"
  have n: "applyDefaults reckless_config = reckless_config"
    by (simp add: reckless_config_def applyDefaults_def listening_config_def files_config_def
        default_listeners_def default_tls_def default_delivery_def default_route_def or_default_def
        signed_route_def mode_defs second_def)
  have v: "valid_config (\<lambda>_. []) reckless_config"
    by (simp add: reckless_config_def valid_config_def listening_config_def files_config_def
        listener_ok_def tls_ok_def routes_ok_def route_ok_def signed_route_def HasWebhook_def
        EffectiveMode_def mode_defs)
  note l = Load_normal [OF n v, of "[]" "[]"]
  have neg: "dl_concurrency (cf_delivery reckless_config) < 0" by (simp add: reckless_config_def)
  have d: "dv_cfg ?d = cf_delivery reckless_config" by simp
  let ?s = "worker_start initial_world"
  obtain js where res: "result (ClaimDue run_env (claim_limit ?d)) (wk_world ?s) = Inr js"
    by (simp add: ClaimDue_def run_simps result_db_exec run_env_def env_answering_def)
  have idle: "wk_phase ?s = Idle" by (simp add: worker_start_def)
  note crash = negative_concurrency_crashes [OF l neg d worker_reachable.start [of run_env ?d initial_world],
      THEN conjunct2, THEN conjunct2, THEN mp, OF conjI [OF idle res], THEN conjunct1]
  show ?thesis by (rule exI, rule conjI, rule crash) simp
qed

end
