(* ===== verification/Spec2Isabelle.thy ===== *)
theory Spec2Isabelle
  imports Composition
begin

text \<open>
  A verification library of smtp-bridge, an SMTP server that turns accepted mail into webhook requests.

  \<^bold>\<open>The program.\<close> A client connects to a listener (\<^verbatim>\<open>internal/server/server.go\<close>), logs in as the owner of
  a route, names recipients, which the router (\<^verbatim>\<open>internal/router/router.go\<close>) matches to routes of that
  owner, and sends a message. \<open>Data\<close> parses it (\<^verbatim>\<open>internal/mail/message.go\<close>), logs it in the SQLite database
  (\<^verbatim>\<open>internal/store/store.go\<close>), posts it to the webhooks of the synchronous routes and queues it in the
  database for the asynchronous ones (\<^verbatim>\<open>internal/delivery/delivery.go\<close>). A worker claims due jobs, posts
  them, and removes or reschedules them. A web interface (\<^verbatim>\<open>internal/web/web.go\<close>) shows and deletes log
  entries; \<^verbatim>\<open>cmd/smtp-bridge/main.go\<close> starts all this from a configuration
  (\<^verbatim>\<open>internal/config/config.go\<close>, \<^verbatim>\<open>internal/tlsconf/tlsconf.go\<close>) and has three subcommands.

  \<^bold>\<open>Theories.\<close>
  \<^item> \<open>Bridge_Prelude\<close>: bytes, 64-bit integers, list lemmas, \<open>result\<close> and \<open>after\<close> of a state computation,
    and the frame predicates \<open>keeps\<close> and \<open>preserves\<close> with their rules.
  \<^item> \<open>Go_Text\<close>, \<open>Go_Net\<close>, \<open>Go_Crypto\<close>: what the program uses of Go's \<^verbatim>\<open>strings\<close>, \<^verbatim>\<open>strconv\<close>, \<^verbatim>\<open>unicode/utf8\<close>,
    \<^verbatim>\<open>net\<close>, SHA-256, HMAC, base64 and hex, as executable functions.
  \<^item> \<open>Config\<close>: the configuration tree, \<open>applyDefaults\<close>, \<open>Validate\<close>, \<open>Load\<close>, and \<open>valid_config\<close>, the
    declarative reading of what validation accepts.
  \<^item> \<open>Router\<close>: \<open>Match\<close>. \<open>Mail\<close>: \<open>Parse\<close> and \<open>walk\<close> on the MIME tree. \<open>Payload\<close>: \<open>BuildPayload\<close> and its JSON.
  \<^item> \<open>Tables\<close>: the four tables, one function per SQL statement, and two contracts as locales: a listing
    that shows the newest rows first, and the durable job queue read as a map from ids to jobs.
  \<^item> \<open>Runtime\<close>: the environment \<open>env\<close> and the \<open>world\<close>. \<open>Store\<close>: the methods of the store.
  \<^item> \<open>Delivery\<close>: one attempt, synchronous delivery, enqueueing, the processing of a job and its backoff.
  \<^item> \<open>Worker\<close>: \<open>RunWorker\<close> and \<open>drain\<close> as a step relation, its invariant, and the measure of a drain.
  \<^item> \<open>Login\<close>: the LOGIN mechanism and the contract of an authentication callback. \<open>Tlsconf\<close>: \<open>Build\<close>.
  \<^item> \<open>Server\<close>: backend and session, one definition per method. \<open>Session\<close>: command sequences, what they
    can cause. \<open>Submission\<close>: what \<open>Data\<close> leaves behind, and the rejection log. \<open>Data_Steps\<close>: \<open>Data\<close> cut into
    pieces of one call each, which without interruption are \<open>Data\<close> again (\<open>data_run_iff\<close>).
    \<open>Listeners\<close>: binding and TLS policy, the allowlist, who can log in.
  \<^item> \<open>Web\<close>: the handlers. \<open>Commands\<close>: start, \<^verbatim>\<open>-check\<close>, purge, listings, password hashing.
  \<^item> \<open>Composition\<close>: everything running together as one step relation, its simulation by the worker in an
    abstract environment, through the contract \<open>neighbour\<close>, the fate of a queued job, and what holds in
    the middle of a \<open>DATA\<close>.
  \<^item> This theory: the path of a message from the socket to the webhook.

  \<^bold>\<open>Reading the model.\<close> A method with effects is a computation on the world, the session, or both, in the
  state monad; a Go error is \<open>Some\<close> message or the left of a sum; a Go \<^verbatim>\<open>int\<close> is an \<open>int\<close> and wraps around
  by \<open>wrap64\<close> where an operation can leave 64 bits. The environment answers clock readings, ids, HTTP
  exchanges and the failure of each SQL statement, by the number of the call; theorems hold for all
  answers, unless they assume \<open>db_reliable\<close>, that no statement fails. Loops are structural recursion; no
  fuel is used. The worker, which does not end, is a relation; the ends of its drains are bounded by
  a measure.

  \<^bold>\<open>Groups of properties.\<close> Safety of the whole program (what becomes of an accepted message, no relaying
  for strangers, jobs leave the queue only for a reason, no job is processed twice at a time);
  refinement of the worker's abstract surroundings by the program; functional behaviour of every
  component on its normal and error branches; validation and start; logs, purge and web interface;
  round trips; termination of drains and retries; bounds of the backoff.

  \<^bold>\<open>Assumptions on code outside.\<close> The MIME library is the argument \<open>env_read\<close>; bcrypt is
  \<open>env_bcrypt\<close>; the reply \<^verbatim>\<open>smtp.ErrAuthUnsupported\<close> is \<open>env_auth_unsupported\<close>, and the error of a
  client's data stream, an SMTP error or any other, an argument of \<open>Data\<close>; Unicode tables are \<open>env_fold\<close> and \<open>env_quote\<close>; ACME, key pairs, YAML decoding, opening the
  database and binding addresses are arguments of \<open>Build\<close>, \<open>Load\<close>, \<open>Open\<close> and \<open>Serve\<close>. Nothing is assumed
  of them. The SMTP library is any client: a list of commands, or steps of the program, in any order, but
  one command at a time for each connection. In the composed program a command other than \<open>DATA\<close> is one
  step, for it writes to the database at most once; \<open>DATA\<close> is a step for each of its calls, in any
  interleaving with the rest. SQLite runs a statement wholly or not at all.
  Names of configured webhook headers are set in the order of the list, where Go's order is unspecified.

  \<^bold>\<open>Not modelled.\<close> Log lines, HTML templates, time zones and the text of times, YAML decoding with
  \<^verbatim>\<open>UnmarshalYAML\<close>, the flag package, signals, timeouts of HTTP requests other than as transport errors,
  and the schema migration: they are I/O or library code with no logic of the program in it.
\<close>

section \<open>A message from the socket to the webhook\<close>

lemma matched_route_of_session:
  assumes "sessions_ok E b S" "bs_clients S k = Some \<lparr>cl_session = s, cl_data = d\<rparr>"
    and "distinct (map rt_name (bk_routes b))" "(a, rt) \<in> set (ss_rcpts s)"
  shows "rt \<in> set (bk_routes b)" "rt \<in> set (distinct_routes (ss_rcpts s))"
proof -
  have sub: "snd ` set (ss_rcpts s) \<subseteq> set (bk_routes b)"
    using sessions_okD [OF assms(1,2)] by (auto simp: session_ok_def routes_of_users_def)
  with assms(4) show "rt \<in> set (bk_routes b)" by force
  have "inj_on rt_name (snd ` set (ss_rcpts s))"
    using assms(3) sub by (auto simp: distinct_map intro: inj_on_subset)
  from set_distinct_routes [OF this] assms(4) show "rt \<in> set (distinct_routes (ss_rcpts s))" by force
qed

text \<open>A payload handed on at some step of a run, and where it is at the end: at the webhook, still in the
  queue, or in the queue at some step with only its last attempt left.\<close>

definition arrived :: "route \<Rightarrow> bytes \<Rightarrow> world \<Rightarrow> bool" where
  "arrived rt body w \<longleftrightarrow>
     (\<exists>out. success_outcome out \<and> (webhook_request rt body, out) \<in> set (http_sent w))"

definition waiting :: "string \<Rightarrow> route \<Rightarrow> bytes \<Rightarrow> int \<Rightarrow> int \<Rightarrow> world \<Rightarrow> bool" where
  "waiting mid rt body i m w \<longleftrightarrow> (\<exists>t. queue_map (db_of w) i =
     Some (\<lparr>jb_ID = i, jb_MessageID = mid, jb_Route = rt_name rt, jb_Payload = body, jb_Attempts = m\<rparr>, t))"

lemma handed_fate:
  assumes "bridge_reachable E b w (f 0)" "db_ok (db_of w)" "bridge_run E b f n" "x \<le> n"
    and "handed E b rt (BuildPayload mid t rt msg) (bs_world (f x))"
    and "dv_routes (bk_deliverer b) (rt_name rt) = Some rt"
  shows "\<exists>body. Marshal E (BuildPayload mid t rt msg) = Inr body
    \<and> (arrived rt body (bs_world (f n)) \<or> \<not> is_sync b rt
       \<and> (\<exists>i. (\<exists>m. waiting mid rt body i m (bs_world (f n)))
          \<or> (\<exists>x'<n. \<exists>m. waiting mid rt body i m (bs_world (f x'))
              \<and> dl_max_retries (dv_cfg (bk_deliverer b)) \<le> wrap64 (m + 1))))"
proof -
  let ?g = "\<lambda>y. f (x + y)"
  have g: "bridge_run E b ?g (n - x)" by (rule bridge_run_shift [OF assms(3,4)])
  have g0: "bridge_reachable E b w (?g 0)" using bridge_run_reachable [OF assms(1,3,4)] by simp
  have gn: "?g (n - x) = f n" using assms(4) by simp
  show ?thesis
  proof (cases "is_sync b rt")
    case True
    with assms(5) bridge_run_http [OF g] gn show ?thesis
      by (auto simp: handed_def posted_def arrived_def)
  next
    case False
    with assms(5) obtain body i t' where body: "Marshal E (BuildPayload mid t rt msg) = Inr body"
      and q: "queue_map (db_of (bs_world (?g 0))) i = Some (\<lparr>jb_ID = i, jb_MessageID = mid,
         jb_Route = rt_name rt, jb_Payload = body, jb_Attempts = 0\<rparr>, t')" (is "_ = Some (?j, _)")
      by (auto simp: handed_def enqueued_def BuildPayload_def)
    have route: "dv_routes (bk_deliverer b) (jb_Route ?j) = Some rt" using assms(6) by simp
    then have del: "delivered (bk_deliverer b) v ?j \<longleftrightarrow> arrived rt body v" for v
      by (auto simp: delivered_def arrived_def)
    have wait: "waiting mid rt body i m v \<longleftrightarrow>
        (\<exists>t. queue_map (db_of v) i = Some (?j\<lparr>jb_Attempts := m\<rparr>, t))" for m v
      by (simp add: waiting_def)
    from route have "dv_routes (bk_deliverer b) (jb_Route ?j) \<noteq> None" by simp
    from job_fate [OF g0 assms(2) g q this, unfolded gn del] have
      "(\<exists>m. waiting mid rt body i m (bs_world (f n))) \<or> arrived rt body (bs_world (f n))
       \<or> (\<exists>x'<n - x. \<exists>m. waiting mid rt body i m (bs_world (f (x + x')))
            \<and> dl_max_retries (dv_cfg (bk_deliverer b)) \<le> wrap64 (m + 1))"
      unfolding wait by blast
    moreover have "x + x' < n" if "x' < n - x" for x' using that by simp
    ultimately show ?thesis using False body by blast
  qed
qed

text \<open>C1: what becomes of an accepted message. Take a server that \<open>runServer\<close> brought up on a
  well-formed database, and a run of it of any length, with any number of clients, failing
  statements, failing webhooks, web requests and purges, in which the worker is not cancelled and
  does not panic. If a client that starts to send the bytes \<open>raw\<close> at the start of the run gets its
  positive answer at step \<open>m\<close>, everything else interleaved, then the message got one id and one time,
  and for every route with a webhook that one of its recipients matched, at the end of the run: the
  route's webhook has answered a request with exactly the payload of this message by a 2xx status, or
  the route is asynchronous and the payload is still queued as a job, or was up to an attempt that
  was the last one allowed.\<close>

theorem accepted_message_fate:
  fixes br :: "'c bridge" and f :: "nat \<Rightarrow> bridge_state" and k m n :: nat
    and E :: env and raw :: bytes and s s' :: session and pc :: data_pc
  assumes "runServer quote (Load read_file decode getenv) open_db build listen path False = Up br"
    and "db_ok (br_db br)"
  defines "b \<equiv> sv_be (br_server br)"
    and "msg \<equiv> Parse (env_read E) (ss_from s) (map fst (ss_rcpts s)) raw"
    and "max_retries \<equiv> dl_max_retries (cf_delivery (br_cfg br))"
  assumes "bridge_reachable E b (initial_world\<lparr>db_of := br_db br\<rparr>) (f 0)" "bridge_run E b f n"
    and "bs_clients (f 0) k = Some \<lparr>cl_session = s, cl_data = Some (DataRead raw)\<rparr>"
    and "m \<le> n" "in_data f k m" "bs_clients (f m) k = Some \<lparr>cl_session = s', cl_data = Some pc\<rparr>"
    and "result (data_step E b pc) (s', bs_world (f m)) = DataDone None"
  shows "\<exists>y z. \<forall>(a, rt)\<in>set (ss_rcpts s). HasWebhook rt \<longrightarrow>
    (\<exists>body. Marshal E (BuildPayload (env_uuid E y) (env_now E z) rt msg) = Inr body
      \<and> (arrived rt body (bs_world (f n))
         \<or> EffectiveMode rt (dl_default_mode (cf_delivery (br_cfg br))) = ModeAsync
           \<and> (\<exists>i. (\<exists>j. waiting (env_uuid E y) rt body i j (bs_world (f n)))
              \<or> (\<exists>x<n. \<exists>j. waiting (env_uuid E y) rt body i j (bs_world (f x))
                  \<and> max_retries \<le> wrap64 (j + 1)))))"
proof -
  let ?w0 = "initial_world\<lparr>db_of := br_db br\<rparr>"
  from Up_consistent [OF assms(1)] have c: "consistent br" and v: "valid_config getenv (br_cfg br)"
    by blast+
  have b: "bk_routes b = cf_routes (br_cfg br)" "bk_cfg b = br_cfg br"
    and d: "dv_cfg (bk_deliverer b) = cf_delivery (br_cfg br)"
    and owners: "\<forall>rt\<in>set (bk_routes b). rt_username rt \<noteq> []"
    and known: "\<forall>rt\<in>set (bk_routes b). dv_routes (bk_deliverer b) (rt_name rt) = Some rt"
    using c by (simp_all add: consistent_def Let_def b_def)
  have names: "distinct (map rt_name (bk_routes b))"
    using v by (simp add: b valid_config_def routes_ok_def)
  have mode: "EffectiveMode rt (dl_default_mode (cf_delivery (br_cfg br))) = ModeAsync"
    if "rt \<in> set (bk_routes b)" "\<not> is_sync b rt" for rt
    using that v by (auto simp: is_sync_def b valid_config_def routes_ok_def route_ok_def)
  have ok0: "db_ok (db_of ?w0)" using assms(2) by simp
  note routes = matched_route_of_session [OF sessions_ok_reachable [OF assms(6) owners] assms(8) names]
  have "bridge_run E b f m" using assms(7,9) by (simp add: bridge_run_def)
  from data_accepts [OF assms(6) ok0 this assms(10,8,11,12)] obtain y z where
    handed: "\<And>rt. rt \<in> set (distinct_routes (ss_rcpts s)) \<Longrightarrow> HasWebhook rt \<Longrightarrow>
      \<exists>x\<le>m. handed E b rt (BuildPayload (env_uuid E y) (env_now E z) rt msg) (bs_world (f x))"
    unfolding msg_def rcptAddrs_def by blast
  have "\<exists>body. Marshal E (BuildPayload (env_uuid E y) (env_now E z) rt msg) = Inr body
      \<and> (arrived rt body (bs_world (f n))
         \<or> EffectiveMode rt (dl_default_mode (cf_delivery (br_cfg br))) = ModeAsync
           \<and> (\<exists>i. (\<exists>j. waiting (env_uuid E y) rt body i j (bs_world (f n)))
              \<or> (\<exists>x<n. \<exists>j. waiting (env_uuid E y) rt body i j (bs_world (f x))
                  \<and> max_retries \<le> wrap64 (j + 1))))"
    if a: "(a, rt) \<in> set (ss_rcpts s)" "HasWebhook rt" for a rt
  proof -
    from handed [OF routes(2) [OF a(1)] a(2)] obtain x where x: "x \<le> m"
      "handed E b rt (BuildPayload (env_uuid E y) (env_now E z) rt msg) (bs_world (f x))" by blast
    have "x \<le> n" using x(1) assms(9) by simp
    from handed_fate [OF assms(6) ok0 assms(7) this x(2)] known routes(1) [OF a(1)] mode
    show ?thesis unfolding d max_retries_def by blast
  qed
  then show ?thesis by blast
qed

lemma example_server:
  assumes "run_example False = Up br" "br_cfg br = listening_config"
  shows "serves_alice (sv_be (br_server br))"
proof -
  from assms(1) have up: "runServer id (Load (\<lambda>_. Inr []) (\<lambda>_. Inr listening_config) (\<lambda>_. []))
      (\<lambda>_. Inr empty_db) (\<lambda>_. Inr None) (\<lambda>n a. Inr a) ''config.yaml'' False = Up br"
    by (simp only: run_example_def load_example_def)
  from up obtain st tls srv where "new_server (br_cfg br) (br_deliverer br) st tls = Some srv"
    "Serve (\<lambda>n a. Inr a) srv = (None, br_server br)" by (rule runServer_Up)
  then have "new_backend (br_cfg br) (br_deliverer br) st = Some (sv_be (br_server br))"
    using serve_keeps_backend [of "\<lambda>n a. Inr a" srv "cf_listeners (bk_cfg (sv_be srv))"]
    by (simp add: Serve_def new_server_backend)
  from new_backend_Some [OF this] this show ?thesis
    by (auto simp: serves_alice_def assms(2) listening_config_def files_config_def new_backend_def mode_defs)
qed

theorem accepted_message_fate_witness:
  "\<exists>br w y z body. run_example False = Up (br :: unit bridge)
     \<and> Marshal run_env (BuildPayload (env_uuid run_env y) (env_now run_env z) signed_route
          (Parse (env_read run_env) [] [''x@h.example''] ''hi'')) = Inr body
     \<and> (arrived signed_route body w
        \<or> (\<exists>i x j. waiting (env_uuid run_env y) signed_route body i j x))"
proof -
  obtain br where br: "run_example False = Up br" "br_cfg br = listening_config" "br_db br = empty_db"
    by (rule example_up)
  let ?b = "sv_be (br_server br)"
  have alice: "serves_alice ?b" using br(1,2) by (rule example_server)
  let ?s = "(new_session ''10.0.0.1:5'' 587)\<lparr>ss_username := ''alice'',
         ss_rcpts := [(''x@h.example'', signed_route)]\<rparr>"
  let ?w = "initial_world\<lparr>db_of := br_db br\<rparr>"
  have "bk_allowNets ?b = []" using alice by (simp add: serves_alice_def)
  from client_commands [OF client_connects [OF this, of run_env ?w "''10.0.0.1:5''" "TCPAddr 587"]
      login_and_name_no_data]
  have "bridge_reachable run_env ?b ?w (one_client ?w ?s None)"
    by (simp add: run_env_def localPort_def example_run [OF alice])
  moreover have "bridge_step run_env ?b (one_client ?w ?s None) (one_client ?w ?s (Some (DataRead ''hi'')))"
    using bridge_step.data [of "one_client ?w ?s None" 0 ?s run_env ?b "''hi''"] by (simp add: one_client_def)
  ultimately have reach: "bridge_reachable run_env ?b ?w (one_client ?w ?s (Some (DataRead ''hi'')))"
    by (rule bridge_reachable.more)
  have "result (Data run_env ?b (Inr ''hi'')) (?s, ?w) = None"
    using accepted_result [OF alice] by (simp add: run_env_def)
  with data_run_Data [of run_env ?b "''hi''" ?s ?w] have
    "data_run run_env ?b (DataRead ''hi'') (?s, ?w) None (after (Data run_env ?b (Inr ''hi'')) (?s, ?w))"
    by (simp only:)
  from data_run_bridge [OF this] obtain f m pc u where f: "f 0 = one_client ?w ?s (Some (DataRead ''hi''))"
    "f m = one_client u ?s (Some pc)" "bridge_run run_env ?b f m" "in_data f 0 m"
    "result (data_step run_env ?b pc) (?s, u) = DataDone None" by blast
  have "db_ok (br_db br)" by (simp add: br(3))
  note fate = accepted_message_fate [OF br(1) [unfolded run_example_def load_example_def] this
      reach [folded f(1)] f(3) _ le_refl f(4), where s = ?s and s' = ?s and raw = "''hi''" and pc = pc]
  have "HasWebhook signed_route" by (simp add: HasWebhook_def signed_route_def)
  moreover have "ss_from (new_session ''10.0.0.1:5'' 587) = []" by (simp add: new_session_def)
  ultimately show ?thesis using br(1) fate f(5) by (simp add: f(1,2)) blast
qed

end
